theory Spec2Isabelle
  imports Main "HOL-Library.Sublist"
begin

section \<open>Data model\<close>

text \<open>
  The development embeds three source files: \<^verbatim>\<open>app/services/llm.py\<close> (the registry
  \<^verbatim>\<open>LLMRegistry\<close> and the service \<^verbatim>\<open>LLMService\<close>), \<^verbatim>\<open>app/schemas/chat.py\<close> (the
  request schema \<^verbatim>\<open>Message\<close>) and \<^verbatim>\<open>app/api/v1/chatbot.py\<close> (the two streaming
  generators).

  Python exceptions are values. Only instances of \<^verbatim>\<open>Exception\<close> are modelled: every
  \<^verbatim>\<open>except Exception\<close> of the source catches every value of type \<open>exn\<close>. An
  exception carries its class and its \<^verbatim>\<open>str()\<close>. The provider classes are kept flat:
  \<open>APIError\<close> stands for \<^verbatim>\<open>openai.APIError\<close> and all its subclasses other than the
  two named ones.
\<close>

datatype exc_class =
    ValueError | RuntimeError | IndexError | ZeroDivisionError | AttributeError | ImportError
  | TypeError | KeyError
  | ValidationError
  | ClientError | BotoCoreError
  | RateLimitError | APITimeoutError | APIError
  | OtherError

datatype exn = Exn (exc_class: exc_class) (exc_str: string)

text \<open>A langchain \<^verbatim>\<open>BaseMessage\<close>: its type tag and its content. The service never looks inside.\<close>

datatype base_message = BaseMessage string string

type_synonym kwargs = "(string \<times> string) list"
type_synonym tool = string

text \<open>A registry entry is the dict \<^verbatim>\<open>{"name": ..., "llm": ...}\<close>; \<open>'h\<close> is the type of model handles.\<close>

record 'h entry =
  name :: string
  llm :: 'h

text \<open>
  Every invocation of a handle is recorded together with its outcome, and every back-off
  sleep with its duration. The trace is an observation of the run, not a variable of the
  source.
\<close>

datatype 'h event = Invoke 'h "exn + base_message" | Sleep nat

text \<open>
  The environment: the fields of \<^verbatim>\<open>settings\<close> that the service reads, and the behaviour of
  the external libraries. \<open>create_bedrock_model\<close> and \<open>create_openai_model\<close> stand for
  \<^verbatim>\<open>LLMRegistry._create_bedrock_model\<close> and \<^verbatim>\<open>LLMRegistry._create_openai_model\<close>, whose
  result is decided by the provider SDK (credentials, optional imports);
  \<open>create_with_kwargs\<close> for the constructor call in \<^verbatim>\<open>LLMRegistry.get\<close> when keyword
  arguments are given; \<open>ainvoke\<close> for \<^verbatim>\<open>handle.ainvoke(messages)\<close>, which reads and changes
  the outside world \<open>'w\<close>; \<open>bind_tools_h\<close> for \<^verbatim>\<open>handle.bind_tools(tools)\<close>.

  \<open>before_sleep_log\<close> stands for the hook \<^verbatim>\<open>before_sleep_log(logger, "WARNING")\<close> of the retry
  decorator. The retry library calls it after a failed attempt that is to be repeated,
  before it sleeps, and the hook calls \<^verbatim>\<open>logger.log("WARNING", ...)\<close> on the logger of
  \<^verbatim>\<open>app.core.logging\<close>, with the level given as a string. What that call does is the
  logger's matter: the loggers of the standard library and of structlog raise on a level
  that is not an integer. The hook is given the exception of the attempt and the number
  of the attempt; \<open>Inl\<close> is the exception it raises, \<open>Inr\<close> its normal return.
\<close>

record ('h, 'w) env =
  LLM_PROVIDER :: string
  MAX_LLM_CALL_RETRIES :: int
  DEFAULT_LLM_MODEL :: string
  AVAILABLE_LLM_MODELS :: "string list"
  create_bedrock_model :: "string \<Rightarrow> exn + 'h entry"
  create_openai_model :: "string \<Rightarrow> exn + 'h entry"
  create_with_kwargs :: "string \<Rightarrow> kwargs \<Rightarrow> exn + 'h"
  ainvoke :: "'h \<Rightarrow> base_message list \<Rightarrow> 'w \<Rightarrow> (exn + base_message) \<times> 'w"
  bind_tools_h :: "'h \<Rightarrow> tool list \<Rightarrow> 'h"
  before_sleep_log :: "exn \<Rightarrow> nat \<Rightarrow> exn + unit"

text \<open>
  The state: the class variable \<^verbatim>\<open>LLMRegistry.LLMS\<close>, the two attributes of the service
  (\<^verbatim>\<open>self._llm\<close>, \<^verbatim>\<open>self._current_model_index\<close>), the outside world and the trace.
\<close>

record ('h, 'w) state =
  LLMS :: "'h entry list"
  self_llm :: "'h option"
  self_current_model_index :: int
  world :: 'w
  trace :: "'h event list"

section \<open>Python primitives\<close>

text \<open>\<^verbatim>\<open>xs[i]\<close>: a negative index counts from the end, an index out of range raises.\<close>

definition py_getitem :: "'a list \<Rightarrow> int \<Rightarrow> exn + 'a" where
  "py_getitem xs i =
     (if 0 \<le> i \<and> i < int (length xs) then Inr (xs ! nat i)
      else if i < 0 \<and> - int (length xs) \<le> i then Inr (xs ! nat (int (length xs) + i))
      else Inl (Exn IndexError ''list index out of range''))"

text \<open>\<^verbatim>\<open>xs.index(x)\<close>: the first position of \<open>x\<close>, or \<^verbatim>\<open>ValueError\<close>.\<close>

fun py_index_from :: "nat \<Rightarrow> string list \<Rightarrow> string \<Rightarrow> nat option" where
  "py_index_from k [] x = None"
| "py_index_from k (y # ys) x = (if y = x then Some k else py_index_from (Suc k) ys x)"

definition py_index :: "string list \<Rightarrow> string \<Rightarrow> exn + int" where
  "py_index xs x =
     (case py_index_from 0 xs x of
        None \<Rightarrow> Inl (Exn ValueError (x @ '' is not in list''))
      | Some k \<Rightarrow> Inr (int k))"

text \<open>\<^verbatim>\<open>', '.join(xs)\<close>.\<close>

fun join_comma :: "string list \<Rightarrow> string" where
  "join_comma [] = []"
| "join_comma [x] = x"
| "join_comma (x # y # ys) = x @ '', '' @ join_comma (y # ys)"

text \<open>\<^verbatim>\<open>str(n)\<close> for a natural number: its decimal digits.\<close>

definition digit_char :: "nat \<Rightarrow> char" where
  "digit_char d = ''0123456789'' ! d"

function str_nat :: "nat \<Rightarrow> string" where
  "str_nat n = (if n < 10 then [digit_char n] else str_nat (n div 10) @ [digit_char (n mod 10)])"
  by pat_completeness auto
termination
  by (relation "measure id") auto

declare str_nat.simps [simp del]

section \<open>The registry\<close>

text \<open>
  \<^verbatim>\<open>LLMRegistry._get_llms\<close>: the configured model identifiers (a provider default when none
  is configured) are constructed one by one; a model whose construction raises is logged
  and skipped; no model at all is a \<^verbatim>\<open>RuntimeError\<close>.
\<close>

definition create_for_provider :: "('h, 'w) env \<Rightarrow> string \<Rightarrow> exn + 'h entry" where
  "create_for_provider env model_id =
     (if LLM_PROVIDER env = ''bedrock'' then create_bedrock_model env model_id
      else create_openai_model env model_id)"

fun build_models :: "('h, 'w) env \<Rightarrow> string list \<Rightarrow> 'h entry list \<Rightarrow> 'h entry list" where
  "build_models env [] models = models"
| "build_models env (model_id # rest) models =
     (case create_for_provider env model_id of
        Inr e \<Rightarrow> build_models env rest (models @ [e])
      | Inl _ \<Rightarrow> build_models env rest models)"

definition get_llms :: "('h, 'w) env \<Rightarrow> exn + 'h entry list" where
  "get_llms env =
     (let available_models =
            (if AVAILABLE_LLM_MODELS env = [] then
               (if LLM_PROVIDER env = ''bedrock''
                then [''anthropic.claude-3-sonnet-20240229-v1:0'']
                else [''gpt-4o-mini''])
             else AVAILABLE_LLM_MODELS env);
          models = build_models env available_models []
      in if models = [] then
           Inl (Exn RuntimeError
                 (''No LLM models could be initialized for provider '' @ [CHR 0x27]
                    @ LLM_PROVIDER env @ [CHR 0x27]))
         else Inr models)"

text \<open>\<^verbatim>\<open>LLMRegistry.initialize\<close>: \<^verbatim>\<open>cls.LLMS = cls._get_llms()\<close>.\<close>

definition initialize ::
  "('h, 'w) env \<Rightarrow> ('h, 'w) state \<Rightarrow> (exn + unit) \<times> ('h, 'w) state" where
  "initialize env s =
     (case get_llms env of
        Inl e \<Rightarrow> (Inl e, s)
      | Inr models \<Rightarrow> (Inr (), s\<lparr>LLMS := models\<rparr>))"

text \<open>The guard \<^verbatim>\<open>if not cls.LLMS: cls.initialize()\<close> that opens every lookup.\<close>

definition ensure_initialized ::
  "('h, 'w) env \<Rightarrow> ('h, 'w) state \<Rightarrow> (exn + unit) \<times> ('h, 'w) state" where
  "ensure_initialized env s = (if LLMS s = [] then initialize env s else (Inr (), s))"

text \<open>The search loop of \<^verbatim>\<open>LLMRegistry.get\<close>: the first entry with the name.\<close>

fun find_entry :: "'h entry list \<Rightarrow> string \<Rightarrow> 'h entry option" where
  "find_entry [] model_name = None"
| "find_entry (e # es) model_name = (if name e = model_name then Some e else find_entry es model_name)"

definition not_found_message :: "'h entry list \<Rightarrow> string \<Rightarrow> string" where
  "not_found_message es model_name =
     ''model '' @ [CHR 0x27] @ model_name @ [CHR 0x27]
       @ '' not found in registry. available models: '' @ join_comma (map name es)"

text \<open>
  \<^verbatim>\<open>LLMRegistry.get(model_name, **kwargs)\<close>. With keyword arguments a new handle is
  constructed; without, the entry's own handle is returned.
\<close>

definition LLMRegistry_get ::
  "('h, 'w) env \<Rightarrow> string \<Rightarrow> kwargs \<Rightarrow> ('h, 'w) state \<Rightarrow> (exn + 'h) \<times> ('h, 'w) state" where
  "LLMRegistry_get env model_name kw s =
     (case ensure_initialized env s of
        (Inl e, s1) \<Rightarrow> (Inl e, s1)
      | (Inr _, s1) \<Rightarrow>
          (case find_entry (LLMS s1) model_name of
             None \<Rightarrow> (Inl (Exn ValueError (not_found_message (LLMS s1) model_name)), s1)
           | Some model_entry \<Rightarrow>
               if kw \<noteq> [] then (create_with_kwargs env model_name kw, s1)
               else (Inr (llm model_entry), s1)))"

text \<open>\<^verbatim>\<open>LLMRegistry.get_all_names\<close>.\<close>

definition get_all_names ::
  "('h, 'w) env \<Rightarrow> ('h, 'w) state \<Rightarrow> (exn + string list) \<times> ('h, 'w) state" where
  "get_all_names env s =
     (case ensure_initialized env s of
        (Inl e, s1) \<Rightarrow> (Inl e, s1)
      | (Inr _, s1) \<Rightarrow> (Inr (map name (LLMS s1)), s1))"

text \<open>
  \<^verbatim>\<open>LLMRegistry.get_model_at_index(index)\<close>: the entry at \<open>index\<close> when
  \<^verbatim>\<open>0 <= index < len(cls.LLMS)\<close>, the first entry otherwise.
\<close>

definition get_model_at_index ::
  "('h, 'w) env \<Rightarrow> int \<Rightarrow> ('h, 'w) state \<Rightarrow> (exn + 'h entry) \<times> ('h, 'w) state" where
  "get_model_at_index env index s =
     (case ensure_initialized env s of
        (Inl e, s1) \<Rightarrow> (Inl e, s1)
      | (Inr _, s1) \<Rightarrow>
          if 0 \<le> index \<and> index < int (length (LLMS s1))
          then (py_getitem (LLMS s1) index, s1)
          else (py_getitem (LLMS s1) 0, s1))"

section \<open>The service\<close>

text \<open>
  \<^verbatim>\<open>LLMService.__init__\<close>. The \<^verbatim>\<open>try\<close> block looks the default model up and takes its
  handle; every exception of the block is caught, and the first entry is taken instead.
  The calls of the logger's methods \<^verbatim>\<open>info\<close>, \<^verbatim>\<open>warning\<close>, \<^verbatim>\<open>error\<close> and \<^verbatim>\<open>debug\<close> write a
  log record and nothing else; they are left out throughout, but the reads made for
  their arguments are kept where they can raise. The one call that passes the level as a
  string, in the hook of the retry decorator, is \<open>before_sleep_log\<close>.
\<close>

definition init_try_default ::
  "('h, 'w) env \<Rightarrow> string list \<Rightarrow> ('h, 'w) state \<Rightarrow> (exn + unit) \<times> ('h, 'w) state" where
  "init_try_default env all_names s =
     (case py_index all_names (DEFAULT_LLM_MODEL env) of
        Inl e \<Rightarrow> (Inl e, s)
      | Inr i \<Rightarrow>
          (case LLMRegistry_get env (DEFAULT_LLM_MODEL env) [] (s\<lparr>self_current_model_index := i\<rparr>) of
             (Inl e, s1) \<Rightarrow> (Inl e, s1)
           | (Inr h, s1) \<Rightarrow> (Inr (), s1\<lparr>self_llm := Some h\<rparr>)))"

definition LLMService_init ::
  "('h, 'w) env \<Rightarrow> ('h, 'w) state \<Rightarrow> (exn + unit) \<times> ('h, 'w) state" where
  "LLMService_init env s0 =
     (case initialize env (s0\<lparr>self_llm := None, self_current_model_index := 0\<rparr>) of
        (Inl e, s1) \<Rightarrow> (Inl e, s1)
      | (Inr _, s1) \<Rightarrow>
          (case get_all_names env s1 of
             (Inl e, s2) \<Rightarrow> (Inl e, s2)
           | (Inr all_names, s2) \<Rightarrow>
               (case init_try_default env all_names s2 of
                  (Inr _, s3) \<Rightarrow> (Inr (), s3)
                | (Inl _, s3) \<Rightarrow>
                    if LLMS s3 \<noteq> [] then
                      (case py_getitem (LLMS s3) 0 of
                         Inl e \<Rightarrow> (Inl e, s3\<lparr>self_current_model_index := 0\<rparr>)
                       | Inr first \<Rightarrow>
                           (Inr (), s3\<lparr>self_current_model_index := 0, self_llm := Some (llm first)\<rparr>))
                    else
                      (Inl (Exn RuntimeError
                             (''No LLM models available for provider '' @ [CHR 0x27]
                                @ LLM_PROVIDER env @ [CHR 0x27])), s3))))"

text \<open>\<^verbatim>\<open>_get_next_model_index\<close>: \<^verbatim>\<open>(self._current_model_index + 1) % len(LLMRegistry.LLMS)\<close>.\<close>

definition get_next_model_index :: "('h, 'w) state \<Rightarrow> exn + int" where
  "get_next_model_index s =
     (let total_models = int (length (LLMS s))
      in if total_models = 0 then Inl (Exn ZeroDivisionError ''integer modulo by zero'')
         else Inr ((self_current_model_index s + 1) mod total_models))"

text \<open>\<^verbatim>\<open>_switch_to_next_model\<close>: any exception of the body makes the result \<^verbatim>\<open>False\<close>.\<close>

definition switch_to_next_model ::
  "('h, 'w) env \<Rightarrow> ('h, 'w) state \<Rightarrow> bool \<times> ('h, 'w) state" where
  "switch_to_next_model env s =
     (case get_next_model_index s of
        Inl _ \<Rightarrow> (False, s)
      | Inr next_index \<Rightarrow>
          (case get_model_at_index env next_index s of
             (Inl _, s1) \<Rightarrow> (False, s1)
           | (Inr next_model_entry, s1) \<Rightarrow>
               (True, s1\<lparr>self_current_model_index := next_index,
                         self_llm := Some (llm next_model_entry)\<rparr>)))"

text \<open>\<^verbatim>\<open>_get_retry_exceptions\<close> and the \<^verbatim>\<open>isinstance\<close> test made with its result.\<close>

definition get_retry_exceptions :: "('h, 'w) env \<Rightarrow> exc_class list" where
  "get_retry_exceptions env =
     (if LLM_PROVIDER env = ''bedrock'' then [ClientError, BotoCoreError]
      else [RateLimitError, APITimeoutError, APIError])"

definition isinstance :: "exn \<Rightarrow> exc_class list \<Rightarrow> bool" where
  "isinstance e classes = (exc_class e \<in> set classes)"

text \<open>
  The body of \<^verbatim>\<open>_call_llm_with_retry\<close>, one attempt. Both branches of the classification
  end in \<^verbatim>\<open>raise\<close>: they differ in the log record only.
\<close>

definition call_llm_body ::
  "('h, 'w) env \<Rightarrow> base_message list \<Rightarrow> ('h, 'w) state
     \<Rightarrow> (exn + base_message) \<times> ('h, 'w) state" where
  "call_llm_body env messages s =
     (case self_llm s of
        None \<Rightarrow> (Inl (Exn RuntimeError ''llm not initialized''), s)
      | Some h \<Rightarrow>
          (case ainvoke env h messages (world s) of
             (outcome, w) \<Rightarrow>
               (let s1 = s\<lparr>world := w, trace := trace s @ [Invoke h outcome]\<rparr>
                in case outcome of
                     Inr response \<Rightarrow> (Inr response, s1)
                   | Inl e \<Rightarrow>
                       if isinstance e (get_retry_exceptions env) then (Inl e, s1)
                       else (Inl e, s1))))"

text \<open>
  The decorator of \<^verbatim>\<open>_call_llm_with_retry\<close>, as the tenacity library documents it:
  \<^verbatim>\<open>retry_if_exception_type((Exception,))\<close> asks for another attempt after every exception;
  \<^verbatim>\<open>stop_after_attempt(n)\<close> stops once the number of the attempt just made is at least
  \<open>n\<close>; \<^verbatim>\<open>reraise=True\<close> then raises the last exception itself;
  \<^verbatim>\<open>wait_exponential(multiplier=1, min=2, max=10)\<close> sleeps \<open>2 ^ (k - 1)\<close> seconds after
  attempt \<open>k\<close>, not less than 2 and not more than 10. Between the decision to repeat and
  the sleep the library calls the \<^verbatim>\<open>before_sleep\<close> hook; an exception of the hook leaves the
  retry unit at once, in place of the exception of the attempt, and no sleep is made.
\<close>

definition retry_if_exception_type_Exception :: "exn \<Rightarrow> bool" where
  "retry_if_exception_type_Exception e = True"

definition stop_after_attempt :: "int \<Rightarrow> nat \<Rightarrow> bool" where
  "stop_after_attempt max_attempt_number attempt_number = (int attempt_number \<ge> max_attempt_number)"

definition wait_exponential :: "nat \<Rightarrow> nat" where
  "wait_exponential attempt_number = max 2 (min (2 ^ (attempt_number - 1)) 10)"

function retrying ::
  "('h, 'w) env \<Rightarrow> base_message list \<Rightarrow> nat \<Rightarrow> ('h, 'w) state
     \<Rightarrow> (exn + base_message) \<times> ('h, 'w) state" where
  "retrying env messages attempt_number s =
     (case call_llm_body env messages s of
        (Inr response, s1) \<Rightarrow> (Inr response, s1)
      | (Inl e, s1) \<Rightarrow>
          if \<not> retry_if_exception_type_Exception e then (Inl e, s1)
          else if stop_after_attempt (MAX_LLM_CALL_RETRIES env) attempt_number then (Inl e, s1)
          else
            (case before_sleep_log env e attempt_number of
               Inl hook_error \<Rightarrow> (Inl hook_error, s1)
             | Inr _ \<Rightarrow>
                 retrying env messages (Suc attempt_number)
                   (s1\<lparr>trace := trace s1 @ [Sleep (wait_exponential attempt_number)]\<rparr>)))"
  by pat_completeness auto
termination
  by (relation "measure (\<lambda>(env, messages, attempt_number, s).
                   nat (MAX_LLM_CALL_RETRIES env - int attempt_number))")
     (auto simp: stop_after_attempt_def)

declare retrying.simps [simp del]

definition call_llm_with_retry ::
  "('h, 'w) env \<Rightarrow> base_message list \<Rightarrow> ('h, 'w) state
     \<Rightarrow> (exn + base_message) \<times> ('h, 'w) state" where
  "call_llm_with_retry env messages s = retrying env messages 1 s"

text \<open>
  \<^verbatim>\<open>LLMService.call\<close>, first block: \<^verbatim>\<open>if model_name:\<close> is true for a name that is neither
  \<^verbatim>\<open>None\<close> nor the empty string. The handle is taken from the registry, and the cursor
  follows when the name is in the list of names. An exception of the lookup leaves the
  block (the \<^verbatim>\<open>except ValueError\<close> clause logs and raises again).
\<close>

definition select_requested_model ::
  "('h, 'w) env \<Rightarrow> string option \<Rightarrow> kwargs \<Rightarrow> ('h, 'w) state
     \<Rightarrow> (exn + unit) \<times> ('h, 'w) state" where
  "select_requested_model env model_name model_kwargs s =
     (case model_name of
        None \<Rightarrow> (Inr (), s)
      | Some n \<Rightarrow>
          if n = [] then (Inr (), s)
          else
            (case LLMRegistry_get env n model_kwargs s of
               (Inl e, s1) \<Rightarrow> (Inl e, s1)
             | (Inr h, s1) \<Rightarrow>
                 (case get_all_names env (s1\<lparr>self_llm := Some h\<rparr>) of
                    (Inl e, s2) \<Rightarrow> (Inl e, s2)
                  | (Inr all_names, s2) \<Rightarrow>
                      (case py_index all_names n of
                         Inr i \<Rightarrow> (Inr (), s2\<lparr>self_current_model_index := i\<rparr>)
                       | Inl _ \<Rightarrow> (Inr (), s2)))))"

text \<open>The \<^verbatim>\<open>RuntimeError\<close> raised after the loop; \<^verbatim>\<open>str(None)\<close> is \<^verbatim>\<open>None\<close>.\<close>

definition all_failed_message :: "nat \<Rightarrow> exn option \<Rightarrow> string" where
  "all_failed_message models_tried last_error =
     ''failed to get response from llm after trying '' @ str_nat models_tried
       @ '' models. last error: ''
       @ (case last_error of None \<Rightarrow> ''None'' | Some e \<Rightarrow> exc_str e)"

definition all_failed :: "nat \<Rightarrow> exn option \<Rightarrow> exn" where
  "all_failed models_tried last_error = Exn RuntimeError (all_failed_message models_tried last_error)"

text \<open>
  The \<^verbatim>\<open>while models_tried < total_models\<close> loop. The two reads
  \<^verbatim>\<open>LLMRegistry.LLMS[...]["name"]\<close> are made for log records inside the \<^verbatim>\<open>except\<close> clause;
  an \<^verbatim>\<open>IndexError\<close> there leaves \<^verbatim>\<open>call\<close>.
\<close>

function call_loop ::
  "('h, 'w) env \<Rightarrow> base_message list \<Rightarrow> nat \<Rightarrow> int \<Rightarrow> nat \<Rightarrow> exn option \<Rightarrow> ('h, 'w) state
     \<Rightarrow> (exn + base_message) \<times> ('h, 'w) state" where
  "call_loop env messages total_models starting_index models_tried last_error s =
     (if models_tried < total_models then
        (case call_llm_with_retry env messages s of
           (Inr response, s1) \<Rightarrow> (Inr response, s1)
         | (Inl e, s1) \<Rightarrow>
             (case py_getitem (LLMS s1) (self_current_model_index s1) of
                Inl ie \<Rightarrow> (Inl ie, s1)
              | Inr current_model \<Rightarrow>
                  if Suc models_tried \<ge> total_models then
                    (case py_getitem (LLMS s1) starting_index of
                       Inl ie \<Rightarrow> (Inl ie, s1)
                     | Inr starting_model \<Rightarrow> (Inl (all_failed (Suc models_tried) (Some e)), s1))
                  else
                    (case switch_to_next_model env s1 of
                       (False, s2) \<Rightarrow> (Inl (all_failed (Suc models_tried) (Some e)), s2)
                     | (True, s2) \<Rightarrow>
                         call_loop env messages total_models starting_index
                           (Suc models_tried) (Some e) s2)))
      else (Inl (all_failed models_tried last_error), s))"
  by pat_completeness auto
termination
  by (relation "measure (\<lambda>(env, messages, total_models, starting_index, models_tried, last_error, s).
                   total_models - models_tried)")
     auto

declare call_loop.simps [simp del]

definition call ::
  "('h, 'w) env \<Rightarrow> base_message list \<Rightarrow> string option \<Rightarrow> kwargs \<Rightarrow> ('h, 'w) state
     \<Rightarrow> (exn + base_message) \<times> ('h, 'w) state" where
  "call env messages model_name model_kwargs s =
     (case select_requested_model env model_name model_kwargs s of
        (Inl e, s1) \<Rightarrow> (Inl e, s1)
      | (Inr _, s1) \<Rightarrow>
          call_loop env messages (length (LLMS s1)) (self_current_model_index s1) 0 None s1)"


definition bind_tools :: "('h, 'w) env \<Rightarrow> tool list \<Rightarrow> ('h, 'w) state \<Rightarrow> ('h, 'w) state" where
  "bind_tools env tools s =
     (case self_llm s of
        None \<Rightarrow> s
      | Some h \<Rightarrow> s\<lparr>self_llm := Some (bind_tools_h env h tools)\<rparr>)"

section \<open>The request schema\<close>

text \<open>
  A Python \<^verbatim>\<open>str\<close> is a sequence of code points, each below \<open>0x110000\<close>, and its
  length counts them.
\<close>

type_synonym pystr = "nat list"

definition lit :: "string \<Rightarrow> pystr" where
  "lit cs = map of_char cs"

text \<open>
  A fragment of regular expressions large enough for the pattern of the validator: a
  literal character and \<^verbatim>\<open>.*?\<close>. Under \<^verbatim>\<open>re.DOTALL\<close> the dot matches every character.
  Under \<^verbatim>\<open>re.IGNORECASE\<close> a lower-case ASCII letter of the pattern matches itself and its
  upper-case form, and, as the documentation of \<^verbatim>\<open>re\<close> lists, \<open>i\<close> also matches U+0130 and
  U+0131, \<open>s\<close> matches U+017F and \<open>k\<close> matches U+212A; every other character of the
  pattern used here matches itself only.
\<close>

datatype re_item = Chr nat | DotStarLazy

definition ignorecase_eq :: "nat \<Rightarrow> nat \<Rightarrow> bool" where
  "ignorecase_eq p t =
     (if 97 \<le> p \<and> p \<le> 122 then
        (t = p \<or> t = p - 32
          \<or> (p = 105 \<and> (t = 304 \<or> t = 305))
          \<or> (p = 115 \<and> t = 383)
          \<or> (p = 107 \<and> t = 8490))
      else t = p)"

text \<open>
  A backtracking matcher: \<open>re_match_here\<close> matches the items at the start of the text,
  \<open>re_search\<close> tries every start position from left to right.
\<close>

fun re_match_here :: "re_item list \<Rightarrow> pystr \<Rightarrow> bool" where
  "re_match_here [] v = True"
| "re_match_here (Chr p # items) [] = False"
| "re_match_here (Chr p # items) (t # ts) = (ignorecase_eq p t \<and> re_match_here items ts)"
| "re_match_here (DotStarLazy # items) [] = re_match_here items []"
| "re_match_here (DotStarLazy # items) (t # ts) =
     (re_match_here items (t # ts) \<or> re_match_here (DotStarLazy # items) ts)"

fun re_search :: "re_item list \<Rightarrow> pystr \<Rightarrow> bool" where
  "re_search items [] = re_match_here items []"
| "re_search items (t # ts) = (re_match_here items (t # ts) \<or> re_search items ts)"

text \<open>The pattern \<^verbatim>\<open><script.*?>.*?</script>\<close>.\<close>

definition script_pattern :: "re_item list" where
  "script_pattern =
     map Chr (lit ''<script'') @ [DotStarLazy] @ map Chr (lit ''>'') @ [DotStarLazy]
       @ map Chr (lit ''</script>'')"

text \<open>\<^verbatim>\<open>Message.validate_content\<close>.\<close>

definition validate_content :: "pystr \<Rightarrow> exn + pystr" where
  "validate_content v =
     (if re_search script_pattern v then
        Inl (Exn ValueError ''Content contains potentially harmful script tags'')
      else if 0 \<in> set v then Inl (Exn ValueError ''Content contains null bytes'')
      else Inr v)"

text \<open>
  The model \<^verbatim>\<open>Message\<close>, constructed from a role and a content given as strings. The
  validation library checks every field and raises one validation error when a field
  fails. The role must be one of three literals. The content must be a string of valid
  Unicode text: a string holding a surrogate code point (U+D800 to U+DFFF) is refused
  before anything else is looked at. Then come the field constraints \<^verbatim>\<open>min_length=1\<close> and
  \<^verbatim>\<open>max_length=3000\<close>, and the field validator runs on a content that passed them. The
  text of the validation error lists the failures; only its class matters here.
\<close>

datatype role = User | Assistant | System

record Message =
  role :: role
  content :: pystr

definition role_of_str :: "pystr \<Rightarrow> role option" where
  "role_of_str r =
     (if r = lit ''user'' then Some User
      else if r = lit ''assistant'' then Some Assistant
      else if r = lit ''system'' then Some System
      else None)"

definition is_surrogate :: "nat \<Rightarrow> bool" where
  "is_surrogate c = (55296 \<le> c \<and> c \<le> 57343)"

definition valid_unicode :: "pystr \<Rightarrow> bool" where
  "valid_unicode v = (filter is_surrogate v = [])"

definition validate_role_field :: "pystr \<Rightarrow> string + role" where
  "validate_role_field r =
     (case role_of_str r of
        None \<Rightarrow> Inl ''role: Input should be user, assistant or system''
      | Some x \<Rightarrow> Inr x)"

definition validate_content_field :: "pystr \<Rightarrow> string + pystr" where
  "validate_content_field c =
     (if \<not> valid_unicode c then Inl ''content: Input should be a valid string''
      else if length c < 1 then Inl ''content: String should have at least 1 character''
      else if length c > 3000 then Inl ''content: String should have at most 3000 characters''
      else
        (case validate_content c of
           Inl e \<Rightarrow> Inl (''content: Value error, '' @ exc_str e)
         | Inr v \<Rightarrow> Inr v))"

definition Message_new :: "pystr \<Rightarrow> pystr \<Rightarrow> exn + Message" where
  "Message_new r c =
     (case (validate_role_field r, validate_content_field c) of
        (Inr x, Inr v) \<Rightarrow> Inr \<lparr>role = x, content = v\<rparr>
      | (Inl role_error, Inr v) \<Rightarrow> Inl (Exn ValidationError role_error)
      | (Inr x, Inl content_error) \<Rightarrow> Inl (Exn ValidationError content_error)
      | (Inl role_error, Inl content_error) \<Rightarrow>
          Inl (Exn ValidationError (role_error @ ''; '' @ content_error)))"

text \<open>
  The description of a script tag in words: somewhere in the content stands
  \<^verbatim>\<open><script\<close>, later a \<^verbatim>\<open>>\<close>, and later \<^verbatim>\<open></script>\<close>, with arbitrary characters (newlines
  too) between them and the letters in either case.
\<close>

definition same_ignoring_case :: "string \<Rightarrow> pystr \<Rightarrow> bool" where
  "same_ignoring_case word s = list_all2 ignorecase_eq (lit word) s"

definition contains_script_tag :: "pystr \<Rightarrow> bool" where
  "contains_script_tag v =
     (\<exists>before opening attrs body closing after.
        v = before @ opening @ attrs @ lit ''>'' @ body @ closing @ after
        \<and> same_ignoring_case ''<script'' opening
        \<and> same_ignoring_case ''</script>'' closing)"

section \<open>The streaming generators\<close>




datatype event_type = assistant_token | tool_call_start | tool_call_end | final | error









section \<open>Observations on a trace\<close>

text \<open>The handles invoked, in order, and the back-off sleeps made.\<close>

fun invoked :: "'h event list \<Rightarrow> 'h list" where
  "invoked [] = []"
| "invoked (Invoke h outcome # tr) = h # invoked tr"
| "invoked (Sleep d # tr) = invoked tr"

fun sleeps :: "'h event list \<Rightarrow> nat list" where
  "sleeps [] = []"
| "sleeps (Invoke h outcome # tr) = sleeps tr"
| "sleeps (Sleep d # tr) = d # sleeps tr"

text \<open>
  The largest number of attempts the retry unit makes on one handle:
  \<^verbatim>\<open>MAX_LLM_CALL_RETRIES\<close>, and one when that setting is below one.
\<close>

definition attempts_per_model :: "('h, 'w) env \<Rightarrow> nat" where
  "attempts_per_model env = Suc (nat (MAX_LLM_CALL_RETRIES env - 1))"

section \<open>Sequences of operations\<close>

text \<open>The cursor of the service points at an entry of the registry.\<close>

definition cursor_in_range :: "('h, 'w) state \<Rightarrow> bool" where
  "cursor_in_range s =
     (0 \<le> self_current_model_index s \<and> self_current_model_index s < int (length (LLMS s)))"

text \<open>
  The operations on a constructed service: a call (with or without a model name and
  keyword arguments), a rotation of the cursor (\<^verbatim>\<open>_switch_to_next_model\<close>), and binding
  tools. \<open>run_ops\<close> runs a sequence of them; an operation that raises leaves the state it
  had reached.
\<close>

datatype op = Call "base_message list" "string option" kwargs | Rotate | BindTools "tool list"

fun apply_op :: "('h, 'w) env \<Rightarrow> op \<Rightarrow> ('h, 'w) state \<Rightarrow> ('h, 'w) state" where
  "apply_op env (Call messages model_name model_kwargs) s =
     snd (call env messages model_name model_kwargs s)"
| "apply_op env Rotate s = snd (switch_to_next_model env s)"
| "apply_op env (BindTools tools) s = bind_tools env tools s"

definition run_ops :: "('h, 'w) env \<Rightarrow> op list \<Rightarrow> ('h, 'w) state \<Rightarrow> ('h, 'w) state" where
  "run_ops env ops s = foldl (\<lambda>t operation. apply_op env operation t) s ops"

section \<open>Example configurations\<close>

text \<open>
  A configuration with three OpenAI models whose handles are their names. The handle
  \<open>alpha\<close> raises a \<^verbatim>\<open>ValueError\<close> at every invocation, the others answer; the outside
  world counts the invocations made. The log hook raises, as it does with a logger of the
  standard library.
\<close>

definition ex_env :: "(string, nat) env" where
  "ex_env =
     \<lparr>LLM_PROVIDER = ''openai'', MAX_LLM_CALL_RETRIES = 3, DEFAULT_LLM_MODEL = ''alpha'',
      AVAILABLE_LLM_MODELS = [''alpha'', ''beta'', ''gamma''],
      create_bedrock_model =
        (\<lambda>model_id. Inl (Exn ImportError ''AWS Bedrock dependencies not available'')),
      create_openai_model = (\<lambda>model_id. Inr \<lparr>name = model_id, llm = model_id\<rparr>),
      create_with_kwargs = (\<lambda>model_name kw. Inr (model_name @ ''+kwargs'')),
      ainvoke = (\<lambda>h messages w.
         (if h = ''alpha'' then Inl (Exn ValueError ''boom'') else Inr (BaseMessage ''ai'' h),
          Suc w)),
      bind_tools_h = (\<lambda>h tools. h @ ''+tools''),
      before_sleep_log = (\<lambda>e attempt_number. Inl (Exn TypeError ''level must be an integer''))\<rparr>"

definition ex_state :: "(string, nat) state" where
  "ex_state =
     \<lparr>LLMS = [\<lparr>name = ''alpha'', llm = ''alpha''\<rparr>, \<lparr>name = ''beta'', llm = ''beta''\<rparr>,
              \<lparr>name = ''gamma'', llm = ''gamma''\<rparr>],
      self_llm = Some ''alpha'', self_current_model_index = 0, world = 0, trace = []\<rparr>"

text \<open>
  The same configuration with every handle failing, the same with a log hook that
  returns, and further states.
\<close>

definition ex_env_down :: "(string, nat) env" where
  "ex_env_down = ex_env\<lparr>ainvoke := (\<lambda>h messages w. (Inl (Exn ValueError ''boom''), Suc w))\<rparr>"

definition ex_env_quiet :: "(string, nat) env" where
  "ex_env_quiet = ex_env\<lparr>before_sleep_log := (\<lambda>e attempt_number. Inr ())\<rparr>"

definition ex_boot :: "(string, nat) state" where
  "ex_boot = \<lparr>LLMS = [], self_llm = None, self_current_model_index = 0, world = 0, trace = []\<rparr>"

definition ex_state_beta :: "(string, nat) state" where
  "ex_state_beta = ex_state\<lparr>self_llm := Some ''beta'', self_current_model_index := 1\<rparr>"


section \<open>Lookup by position\<close>

lemma wait_exponential_1 [simp]: "wait_exponential (Suc 0) = 2"
  by (simp add: wait_exponential_def)

lemma wait_exponential_2 [simp]: "wait_exponential (Suc (Suc 0)) = 2"
  by (simp add: wait_exponential_def)

text \<open>
  C1, as the code has it. On a registry with at least one entry,
  \<open>get_model_at_index\<close> returns the entry at position \<open>i\<close> when \<open>0 \<le> i < N\<close> (where
  \<open>i mod N = i\<close>), and the entry at position 0 for every other integer \<open>i\<close>; the registry
  is left as it was.
\<close>

theorem get_model_at_index_in_range_or_first:
  assumes "LLMS s \<noteq> []"
  shows "get_model_at_index env i s =
           (Inr (LLMS s ! (if 0 \<le> i \<and> i < int (length (LLMS s)) then nat i else 0)), s)"
  using assms
  by (auto simp: get_model_at_index_def ensure_initialized_def py_getitem_def Let_def)

theorem get_model_at_index_in_range_or_first_witness:
  "LLMS ex_state \<noteq> []
   \<and> get_model_at_index ex_env 2 ex_state = (Inr \<lparr>name = ''gamma'', llm = ''gamma''\<rparr>, ex_state)
   \<and> get_model_at_index ex_env 3 ex_state = (Inr \<lparr>name = ''alpha'', llm = ''alpha''\<rparr>, ex_state)
   \<and> get_model_at_index ex_env (- 1) ex_state
       = (Inr \<lparr>name = ''alpha'', llm = ''alpha''\<rparr>, ex_state)"
proof -
  have h: "LLMS ex_state \<noteq> []"
    by (simp add: ex_state_def)
  have l: "LLMS ex_state =
             [\<lparr>name = ''alpha'', llm = ''alpha''\<rparr>, \<lparr>name = ''beta'', llm = ''beta''\<rparr>,
              \<lparr>name = ''gamma'', llm = ''gamma''\<rparr>]"
    by (simp add: ex_state_def)
  show ?thesis
    using h get_model_at_index_in_range_or_first [OF h, of ex_env 2]
      get_model_at_index_in_range_or_first [OF h, of ex_env 3]
      get_model_at_index_in_range_or_first [OF h, of ex_env "- 1"]
    by (simp add: l)
qed

text \<open>
  C1, as the specification states it, fails: with three entries the index 4 yields the
  entry at position 0, while \<open>4 mod 3 = 1\<close>.
\<close>

theorem get_model_at_index_not_modulo:
  "fst (get_model_at_index ex_env 4 ex_state) = Inr \<lparr>name = ''alpha'', llm = ''alpha''\<rparr>
   \<and> LLMS ex_state ! nat (4 mod int (length (LLMS ex_state))) = \<lparr>name = ''beta'', llm = ''beta''\<rparr>
   \<and> fst (get_model_at_index ex_env 4 ex_state)
       \<noteq> Inr (LLMS ex_state ! nat (4 mod int (length (LLMS ex_state))))"
  by (simp add: get_model_at_index_def ensure_initialized_def py_getitem_def ex_state_def)

section \<open>The retry unit\<close>

lemma invoked_append [simp]: "invoked (a @ b) = invoked a @ invoked b"
  by (induction a rule: invoked.induct) auto

lemma sleeps_append [simp]: "sleeps (a @ b) = sleeps a @ sleeps b"
  by (induction a rule: sleeps.induct) auto

lemma call_llm_body_some:
  assumes "self_llm s = Some h"
  shows "call_llm_body env messages s =
           (fst (ainvoke env h messages (world s)),
            s\<lparr>world := snd (ainvoke env h messages (world s)),
              trace := trace s @ [Invoke h (fst (ainvoke env h messages (world s)))]\<rparr>)"
  using assms
  by (simp add: call_llm_body_def Let_def split: prod.splits sum.splits)

lemma retrying_succeeds:
  assumes "self_llm s = Some h"
    and "ainvoke env h messages (world s) = (Inr r, w)"
  shows "retrying env messages k s = (Inr r, s\<lparr>world := w, trace := trace s @ [Invoke h (Inr r)]\<rparr>)"
  using assms
  by (subst retrying.simps) (simp add: call_llm_body_some)

text \<open>
  One failed attempt after which the unit stops: because the attempts are used up, or
  because the log hook raises.
\<close>

lemma retrying_stops_after_failure:
  assumes "self_llm s = Some h"
    and "ainvoke env h messages (world s) = (Inl e, w)"
    and "stop_after_attempt (MAX_LLM_CALL_RETRIES env) k \<or> isl (before_sleep_log env e k)"
  shows "\<exists>x. retrying env messages k s
               = (Inl x, s\<lparr>world := w, trace := trace s @ [Invoke h (Inl e)]\<rparr>)
             \<and> (if stop_after_attempt (MAX_LLM_CALL_RETRIES env) k then x = e
                else before_sleep_log env e k = Inl x)"
proof (cases "stop_after_attempt (MAX_LLM_CALL_RETRIES env) k")
  case True
  have "retrying env messages k s
          = (Inl e, s\<lparr>world := w, trace := trace s @ [Invoke h (Inl e)]\<rparr>)"
    by (subst retrying.simps)
       (simp add: call_llm_body_some [OF assms(1)] assms(2) True
          retry_if_exception_type_Exception_def)
  then show ?thesis
    using True by auto
next
  case False
  then obtain x where x: "before_sleep_log env e k = Inl x"
    using assms(3) by (cases "before_sleep_log env e k") auto
  have "retrying env messages k s
          = (Inl x, s\<lparr>world := w, trace := trace s @ [Invoke h (Inl e)]\<rparr>)"
    by (subst retrying.simps)
       (simp add: call_llm_body_some [OF assms(1)] assms(2) False x
          retry_if_exception_type_Exception_def)
  then show ?thesis
    using x False by auto
qed



text \<open>
  With a log hook that returns, the same input is repeated: three invocations and two
  sleeps. The classification in the body of the unit decides nothing.
\<close>

lemma call_llm_with_retry_quiet_hook_repeats:
  "call_llm_with_retry ex_env_quiet [] ex_state =
       (Inl (Exn ValueError ''boom''),
        ex_state\<lparr>world := 3,
                 trace := [Invoke ''alpha'' (Inl (Exn ValueError ''boom'')), Sleep 2,
                           Invoke ''alpha'' (Inl (Exn ValueError ''boom'')), Sleep 2,
                           Invoke ''alpha'' (Inl (Exn ValueError ''boom''))]\<rparr>)"
  by (simp add: call_llm_with_retry_def retrying.simps call_llm_body_def isinstance_def
        get_retry_exceptions_def retry_if_exception_type_Exception_def stop_after_attempt_def
        ex_env_quiet_def ex_env_def ex_state_def)

section \<open>The retry unit on a handle that always fails\<close>

lemma retrying_all_fail:
  assumes "\<And>w. isl (fst (ainvoke env h messages w))"
  shows "self_llm s = Some h \<Longrightarrow>
         \<exists>e w tr n. retrying env messages k s = (Inl e, s\<lparr>world := w, trace := trace s @ tr\<rparr>)
            \<and> invoked tr = replicate n h
            \<and> 1 \<le> n \<and> n \<le> Suc (nat (MAX_LLM_CALL_RETRIES env - int k))
            \<and> length (sleeps tr) = n - 1
            \<and> tr \<noteq> []"
proof (induction "nat (MAX_LLM_CALL_RETRIES env - int k)" arbitrary: k s)
  case 0
  obtain e w where inv: "ainvoke env h messages (world s) = (Inl e, w)"
    using assms [of "world s"] by (cases "ainvoke env h messages (world s)") (auto simp: isl_def)
  have stop: "stop_after_attempt (MAX_LLM_CALL_RETRIES env) k \<or> isl (before_sleep_log env e k)"
    using 0 by (simp add: stop_after_attempt_def)
  from retrying_stops_after_failure [OF \<open>self_llm s = Some h\<close> inv stop]
  obtain x where
    "retrying env messages k s = (Inl x, s\<lparr>world := w, trace := trace s @ [Invoke h (Inl e)]\<rparr>)"
    by blast
  then show ?case
    by (intro exI [of _ x] exI [of _ w] exI [of _ "[Invoke h (Inl e)]"] exI [of _ 1]) simp
next
  case (Suc m)
  obtain e w where inv: "ainvoke env h messages (world s) = (Inl e, w)"
    using assms [of "world s"] by (cases "ainvoke env h messages (world s)") (auto simp: isl_def)
  have nostop: "\<not> stop_after_attempt (MAX_LLM_CALL_RETRIES env) k"
    using Suc.hyps(2) by (simp add: stop_after_attempt_def)
  show ?case
  proof (cases "before_sleep_log env e k")
    case (Inl x)
    then have "stop_after_attempt (MAX_LLM_CALL_RETRIES env) k \<or> isl (before_sleep_log env e k)"
      by simp
    from retrying_stops_after_failure [OF \<open>self_llm s = Some h\<close> inv this]
    obtain y where
      "retrying env messages k s = (Inl y, s\<lparr>world := w, trace := trace s @ [Invoke h (Inl e)]\<rparr>)"
      by blast
    then show ?thesis
      by (intro exI [of _ y] exI [of _ w] exI [of _ "[Invoke h (Inl e)]"] exI [of _ 1]) simp
  next
    case (Inr u)
    let ?s1 = "s\<lparr>world := w, trace := trace s @ [Invoke h (Inl e), Sleep (wait_exponential k)]\<rparr>"
    have step: "retrying env messages k s = retrying env messages (Suc k) ?s1"
      by (subst retrying.simps)
         (simp add: call_llm_body_some [OF \<open>self_llm s = Some h\<close>] inv nostop Inr
            retry_if_exception_type_Exception_def)
    have m: "m = nat (MAX_LLM_CALL_RETRIES env - int (Suc k))"
      using Suc.hyps(2) by simp
    have "self_llm ?s1 = Some h"
      using Suc.prems by simp
    from Suc.hyps(1) [OF m this]
    obtain e' w' tr' n' where
      r: "retrying env messages (Suc k) ?s1 = (Inl e', ?s1\<lparr>world := w', trace := trace ?s1 @ tr'\<rparr>)"
      and i: "invoked tr' = replicate n' h"
      and n': "1 \<le> n'" "n' \<le> Suc m"
      and sl: "length (sleeps tr') = n' - 1"
      using m by auto
    let ?tr = "[Invoke h (Inl e), Sleep (wait_exponential k)] @ tr'"
    have "retrying env messages k s = (Inl e', s\<lparr>world := w', trace := trace s @ ?tr\<rparr>)"
      using step r by simp
    moreover have "invoked ?tr = replicate (Suc n') h"
      using i by simp
    moreover have "1 \<le> Suc n'" "Suc n' \<le> Suc (nat (MAX_LLM_CALL_RETRIES env - int k))"
      using n' Suc.hyps(2) by simp_all
    moreover have "length (sleeps ?tr) = Suc n' - 1"
      using sl n' by simp
    moreover have "?tr \<noteq> []"
      by simp
    ultimately show ?thesis
      by blast
  qed
qed

lemma retrying_frame:
  "LLMS (snd (retrying env messages k s)) = LLMS s
   \<and> self_llm (snd (retrying env messages k s)) = self_llm s
   \<and> self_current_model_index (snd (retrying env messages k s)) = self_current_model_index s"
proof (induction env messages k s rule: retrying.induct)
  case (1 env messages attempt_number s)
  obtain out s1 where b: "call_llm_body env messages s = (out, s1)"
    by (cases "call_llm_body env messages s")
  have f1: "LLMS s1 = LLMS s \<and> self_llm s1 = self_llm s
            \<and> self_current_model_index s1 = self_current_model_index s"
    using b by (auto simp: call_llm_body_def Let_def split: option.splits prod.splits sum.splits)
  show ?case
  proof (cases out)
    case (Inr r)
    then show ?thesis
      using f1 by (subst (1 2 3) retrying.simps) (simp add: b)
  next
    case (Inl e)
    show ?thesis
    proof (cases "stop_after_attempt (MAX_LLM_CALL_RETRIES env) attempt_number")
      case True
      then show ?thesis
        using f1
        by (subst (1 2 3) retrying.simps) (simp add: b Inl retry_if_exception_type_Exception_def)
    next
      case False
      show ?thesis
      proof (cases "before_sleep_log env e attempt_number")
        case hook: (Inl x)
        then show ?thesis
          using f1 False
          by (subst (1 2 3) retrying.simps)
             (simp add: b Inl retry_if_exception_type_Exception_def)
      next
        case hook: (Inr u)
        have b': "(out, s1) = call_llm_body env messages s"
          using b by simp
        have r: "\<not> \<not> retry_if_exception_type_Exception e"
          by (simp add: retry_if_exception_type_Exception_def)
        show ?thesis
          using "1.IH" [OF b' Inl r False hook] f1 False
          by (subst (1 2 3) retrying.simps)
             (simp add: b Inl hook retry_if_exception_type_Exception_def)
      qed
    qed
  qed
qed

lemma switch_to_next_model_nonempty:
  assumes "LLMS s \<noteq> []"
  shows "switch_to_next_model env s =
           (True, s\<lparr>self_current_model_index :=
                      (self_current_model_index s + 1) mod int (length (LLMS s)),
                    self_llm := Some (llm (LLMS s ! nat ((self_current_model_index s + 1)
                                                          mod int (length (LLMS s)))))\<rparr>)"
proof -
  let ?n = "(self_current_model_index s + 1) mod int (length (LLMS s))"
  have pos: "0 < int (length (LLMS s))"
    using assms by simp
  have range: "0 \<le> ?n" "?n < int (length (LLMS s))" "\<not> ?n < 0"
    using pos by (simp_all add: not_less)
  have "get_next_model_index s = Inr ?n"
    using assms by (simp add: get_next_model_index_def Let_def)
  moreover have "get_model_at_index env ?n s = (Inr (LLMS s ! nat ?n), s)"
    using assms range
    by (simp add: get_model_at_index_def ensure_initialized_def py_getitem_def Let_def)
  ultimately show ?thesis
    by (simp add: switch_to_next_model_def)
qed


lemma call_llm_with_retry_all_fail:
  assumes "\<And>w. isl (fst (ainvoke env h messages w))" and "self_llm s = Some h"
  shows "\<exists>e w tr n. call_llm_with_retry env messages s
                       = (Inl e, s\<lparr>world := w, trace := trace s @ tr\<rparr>)
            \<and> invoked tr = replicate n h
            \<and> 1 \<le> n \<and> n \<le> attempts_per_model env
            \<and> length (sleeps tr) = n - 1
            \<and> tr \<noteq> []"
  using retrying_all_fail [of env h messages s 1, OF assms]
  by (simp add: call_llm_with_retry_def attempts_per_model_def)

lemma py_getitem_nat:
  "k < length xs \<Longrightarrow> py_getitem xs (int k) = Inr (xs ! k)"
  by (simp add: py_getitem_def Let_def)

lemma concat_map_upt_first:
  assumes "a < b"
  shows "concat (map f [a..<b]) = f a @ concat (map (\<lambda>i. f (Suc i)) [a..<b - 1])"
proof -
  have "[a..<b] = a # [Suc a..<Suc (b - 1)]"
    using assms by (simp add: upt_conv_Cons)
  also have "[Suc a..<Suc (b - 1)] = map Suc [a..<b - 1]"
    by (simp only: map_Suc_upt)
  finally show ?thesis
    by (simp add: comp_def)
qed

lemma call_loop_all_fail:
  shows "n = N - tried \<Longrightarrow> tried < N \<Longrightarrow> N = length (LLMS s) \<Longrightarrow>
         self_current_model_index s = int k \<Longrightarrow> k < N \<Longrightarrow>
         0 \<le> start \<Longrightarrow> start < int N \<Longrightarrow> self_llm s = Some h0 \<Longrightarrow>
         (\<And>w. isl (fst (ainvoke env h0 messages w))) \<Longrightarrow>
         (\<And>i w. i < N \<Longrightarrow> isl (fst (ainvoke env (llm (LLMS s ! i)) messages w))) \<Longrightarrow>
         \<exists>e s' tr cnt. call_loop env messages N start tried last_error s =
                 (Inl (all_failed N (Some e)), s')
            \<and> LLMS s' = LLMS s
            \<and> self_current_model_index s' = int ((k + (N - tried - 1)) mod N)
            \<and> self_llm s' \<noteq> None
            \<and> trace s' = trace s @ tr
            \<and> invoked tr = replicate (cnt 0) h0
                 @ concat (map (\<lambda>i. replicate (cnt i) (llm (LLMS s ! ((k + i) mod N))))
                             [1..<N - tried])
            \<and> (\<forall>i. 1 \<le> cnt i \<and> cnt i \<le> attempts_per_model env)"
proof (induction n arbitrary: tried s k h0 last_error)
  case 0
  then show ?case by simp
next
  case (Suc n)
  let ?A = "attempts_per_model env"
  from call_llm_with_retry_all_fail [of env h0 messages s, OF Suc.prems(9) \<open>self_llm s = Some h0\<close>]
  obtain e1 w1 tr1 n1 where
    r: "call_llm_with_retry env messages s = (Inl e1, s\<lparr>world := w1, trace := trace s @ tr1\<rparr>)"
    and i1: "invoked tr1 = replicate n1 h0"
    and n1: "1 \<le> n1" "n1 \<le> ?A"
    by blast
  let ?s1 = "s\<lparr>world := w1, trace := trace s @ tr1\<rparr>"
  have cur: "py_getitem (LLMS s) (self_current_model_index s) = Inr (LLMS s ! k)"
    using Suc.prems by (simp add: py_getitem_nat)
  have lt: "tried < N"
    using Suc.prems by simp
  show ?case
  proof (cases "n = 0")
    case True
    then have last: "Suc tried = N"
      using Suc.prems by simp
    have st: "\<exists>x. py_getitem (LLMS s) start = Inr x"
      using Suc.prems by (simp add: py_getitem_def)
    then obtain x where stx: "py_getitem (LLMS s) start = Inr x" ..
    have res: "call_loop env messages N start tried last_error s
                 = (Inl (all_failed N (Some e1)), ?s1)"
      using lt last
      by (subst call_loop.simps) (simp add: r cur stx)
    have emp: "[1..<N - tried] = []"
      using last by simp
    have "self_current_model_index ?s1 = int ((k + (N - tried - 1)) mod N)"
      using Suc.prems last by simp
    then show ?thesis
      using res i1 n1 emp Suc.prems
      by (intro exI [of _ e1] exI [of _ ?s1] exI [of _ tr1] exI [of _ "\<lambda>i. n1"]) simp
  next
    case False
    then have more: "\<not> N \<le> Suc tried" and n: "n = N - Suc tried"
      and lt': "Suc tried < N"
      using Suc.prems by simp_all
    have nonempty: "LLMS ?s1 \<noteq> []"
      using Suc.prems by auto
    let ?k' = "Suc k mod N"
    let ?h' = "llm (LLMS s ! ?k')"
    define s2 where "s2 = ?s1\<lparr>self_current_model_index := int ?k', self_llm := Some ?h'\<rparr>"
    have idx: "(self_current_model_index ?s1 + 1) mod int (length (LLMS ?s1)) = int ?k'"
      using Suc.prems by (simp add: zmod_int add.commute)
    have sw: "switch_to_next_model env ?s1 = (True, s2)"
      using switch_to_next_model_nonempty [OF nonempty, of env] idx
      by (simp add: s2_def)
    have f2: "LLMS s2 = LLMS s" "self_llm s2 = Some ?h'" "self_current_model_index s2 = int ?k'"
      "trace s2 = trace s @ tr1"
      by (simp_all add: s2_def)
    have step: "call_loop env messages N start tried last_error s
                 = call_loop env messages N start (Suc tried) (Some e1) s2"
      using lt more
      by (subst call_loop.simps) (simp add: r cur sw)
    have k': "?k' < N"
      using lt by (intro mod_less_divisor) simp
    have failk: "\<And>w. isl (fst (ainvoke env ?h' messages w))"
      using Suc.prems(10) [OF k'] .
    have failall: "\<And>i w. i < N \<Longrightarrow> isl (fst (ainvoke env (llm (LLMS s2 ! i)) messages w))"
      using Suc.prems(10) f2(1) by simp
    have len2: "N = length (LLMS s2)"
      using Suc.prems(3) f2(1) by simp
    from Suc.IH [of "Suc tried" s2 ?k' ?h' "Some e1", OF n lt' len2 f2(3) k' \<open>0 \<le> start\<close>
        \<open>start < int N\<close> f2(2) failk failall]
    obtain e s' tr cnt' where
      res: "call_loop env messages N start (Suc tried) (Some e1) s2
              = (Inl (all_failed N (Some e)), s')"
      and g1: "LLMS s' = LLMS s2"
      and g2: "self_current_model_index s' = int ((?k' + (N - Suc tried - 1)) mod N)"
      and g3: "self_llm s' \<noteq> None"
      and g4: "trace s' = trace s2 @ tr"
      and g5: "invoked tr = replicate (cnt' 0) ?h'
                 @ concat (map (\<lambda>i. replicate (cnt' i) (llm (LLMS s2 ! ((?k' + i) mod N))))
                             [1..<N - Suc tried])"
      and g6: "\<forall>i. 1 \<le> cnt' i \<and> cnt' i \<le> ?A"
      by blast
    define cnt where "cnt = (\<lambda>i. case i of 0 \<Rightarrow> n1 | Suc j \<Rightarrow> cnt' j)"
    have cnt0: "cnt 0 = n1" and cntS: "\<And>j. cnt (Suc j) = cnt' j"
      by (simp_all add: cnt_def)
    have cntb: "\<forall>i. 1 \<le> cnt i \<and> cnt i \<le> ?A"
    proof
      fix i show "1 \<le> cnt i \<and> cnt i \<le> ?A"
        using n1 g6 by (cases i) (simp_all add: cnt_def)
    qed
    have shift: "\<And>i. (?k' + i) mod N = (k + Suc i) mod N"
      by (simp add: mod_simps)
    have one: "(k + 1) mod N = ?k'"
      by simp
    have g5': "invoked tr = replicate (cnt 1) (llm (LLMS s ! ((k + 1) mod N)))
                 @ concat (map (\<lambda>i. replicate (cnt (Suc i)) (llm (LLMS s ! ((k + Suc i) mod N))))
                             [1..<N - tried - 1])"
      using g5 by (simp only: shift one f2(1) cntS One_nat_def) simp
    have inv: "invoked (tr1 @ tr) = replicate (cnt 0) h0
                 @ concat (map (\<lambda>i. replicate (cnt i) (llm (LLMS s ! ((k + i) mod N))))
                             [1..<N - tried])"
    proof -
      have "1 < N - tried"
        using lt' by simp
      from concat_map_upt_first
             [OF this, of "\<lambda>i. replicate (cnt i) (llm (LLMS s ! ((k + i) mod N)))"]
      show ?thesis
        by (simp only: invoked_append i1 g5' cnt0)
    qed
    have cursor: "self_current_model_index s' = int ((k + (N - tried - 1)) mod N)"
    proof -
      have "(?k' + (N - Suc tried - 1)) mod N = (k + Suc (N - Suc tried - 1)) mod N"
        by (rule shift)
      also have "Suc (N - Suc tried - 1) = N - tried - 1"
        using lt' by simp
      finally show ?thesis
        using g2 by simp
    qed
    have tr: "trace s' = trace s @ (tr1 @ tr)"
      using g4 f2(4) by simp
    have l: "LLMS s' = LLMS s"
      using g1 f2(1) by simp
    show ?thesis
      using step res l g3 tr inv cursor cntb
      by (intro exI [of _ e] exI [of _ s'] exI [of _ "tr1 @ tr"] exI [of _ cnt]) simp
  qed
qed

lemma rotate_as_map:
  "rotate c xs = map (\<lambda>i. xs ! ((c + i) mod length xs)) [0..<length xs]"
  by (rule nth_equalityI) (simp_all add: nth_rotate)

section \<open>A full cycle of failures\<close>

text \<open>
  C5. On a registry of \<open>N \<ge> 1\<close> entries with the cursor in range and the handle of the
  cursor's entry current, when every registered handle fails at every invocation,
  \<open>call\<close> ends in the terminal \<^verbatim>\<open>RuntimeError\<close> for \<open>N\<close> models, and the handles it has
  invoked are those of the registry rotated to the cursor: each of the \<open>N\<close> entries once,
  in cyclic order from the cursor, every one with at least one invocation and at most
  \<open>attempts_per_model\<close> invocations in a row (the retries on that model).
\<close>

theorem call_all_fail_tries_every_model_once:
  assumes "LLMS s \<noteq> []"
    and "0 \<le> self_current_model_index s"
    and "self_current_model_index s < int (length (LLMS s))"
    and "self_llm s = Some (llm (LLMS s ! nat (self_current_model_index s)))"
    and "\<forall>entry \<in> set (LLMS s). \<forall>w. isl (fst (ainvoke env (llm entry) messages w))"
  shows "\<exists>e s' tr counts. call env messages None [] s
                       = (Inl (all_failed (length (LLMS s)) (Some e)), s')
           \<and> trace s' = trace s @ tr
           \<and> length counts = length (LLMS s)
           \<and> list_all (\<lambda>n. 1 \<le> n \<and> n \<le> attempts_per_model env) counts
           \<and> invoked tr = concat (map (\<lambda>(n, entry). replicate n (llm entry))
                                    (zip counts (rotate (nat (self_current_model_index s)) (LLMS s))))
           \<and> length (rotate (nat (self_current_model_index s)) (LLMS s)) = length (LLMS s)"
proof -
  let ?N = "length (LLMS s)"
  let ?A = "attempts_per_model env"
  define c where "c = nat (self_current_model_index s)"
  have c: "self_current_model_index s = int c" "c < ?N"
    using assms(2,3) by (simp_all add: c_def)
  have N: "0 < ?N"
    using assms(1) by simp
  have failall: "\<And>i w. i < ?N \<Longrightarrow> isl (fst (ainvoke env (llm (LLMS s ! i)) messages w))"
    using assms(5) by simp
  have fail0: "\<And>w. isl (fst (ainvoke env (llm (LLMS s ! c)) messages w))"
    using failall [OF c(2)] .
  have h0: "self_llm s = Some (llm (LLMS s ! c))"
    using assms(4) by (simp add: c_def)
  have st: "0 \<le> int c" "int c < int ?N"
    using c(2) by simp_all
  have n: "?N = ?N - 0"
    by simp
  from call_loop_all_fail [of ?N ?N 0 s c "int c" "llm (LLMS s ! c)" env messages None,
      OF n N refl c(1) c(2) st h0 fail0 failall]
  obtain e s' tr cnt where
    res: "call_loop env messages ?N (int c) 0 None s = (Inl (all_failed ?N (Some e)), s')"
    and tr: "trace s' = trace s @ tr"
    and inv: "invoked tr = replicate (cnt 0) (llm (LLMS s ! c))
                @ concat (map (\<lambda>i. replicate (cnt i) (llm (LLMS s ! ((c + i) mod ?N)))) [1..<?N])"
    and cnt: "\<forall>i. 1 \<le> cnt i \<and> cnt i \<le> ?A"
    by auto
  define counts where "counts = map cnt [0..<?N]"
  have len: "length counts = ?N"
    by (simp add: counts_def)
  have bounds: "list_all (\<lambda>n. 1 \<le> n \<and> n \<le> ?A) counts"
    using cnt by (simp add: counts_def list_all_iff)
  have "replicate (cnt 0) (llm (LLMS s ! c))
          @ concat (map (\<lambda>i. replicate (cnt i) (llm (LLMS s ! ((c + i) mod ?N)))) [1..<?N])
        = concat (map (\<lambda>i. replicate (cnt i) (llm (LLMS s ! ((c + i) mod ?N)))) [0..<?N])"
    using N c(2) by (simp add: upt_conv_Cons)
  also have "\<dots> = concat (map (\<lambda>(n, entry). replicate n (llm entry))
                            (zip counts (rotate c (LLMS s))))"
    by (simp add: counts_def rotate_as_map [of c "LLMS s"] zip_map_map zip_same_conv_map
          comp_def)
  finally have "invoked tr = concat (map (\<lambda>(n, entry). replicate n (llm entry))
                                       (zip counts (rotate c (LLMS s))))"
    using inv by simp
  moreover have "call env messages None [] s = (Inl (all_failed ?N (Some e)), s')"
    using res c(1) by (simp add: call_def select_requested_model_def)
  ultimately show ?thesis
    using tr len bounds unfolding c_def [symmetric] by auto
qed

section \<open>The cursor stays in range\<close>

lemma py_getitem_in_range:
  "0 \<le> i \<Longrightarrow> i < int (length xs) \<Longrightarrow> py_getitem xs i = Inr (xs ! nat i)"
  by (simp add: py_getitem_def Let_def)

lemma find_entry_None: "find_entry es n = None \<longleftrightarrow> n \<notin> set (map name es)"
  by (induction es) auto

lemma py_index_from_bounds:
  "py_index_from k xs x = Some j \<Longrightarrow> k \<le> j \<and> j < k + length xs"
  by (induction xs arbitrary: k) (fastforce split: if_splits)+

lemma py_index_from_None: "py_index_from k xs x = None \<longleftrightarrow> x \<notin> set xs"
  by (induction xs arbitrary: k) auto

lemma py_index_from_nth:
  "py_index_from k xs x = Some j \<Longrightarrow> xs ! (j - k) = x"
proof (induction xs arbitrary: k)
  case Nil
  then show ?case by simp
next
  case (Cons y ys)
  show ?case
  proof (cases "y = x")
    case True
    then show ?thesis using Cons.prems by simp
  next
    case False
    then have r: "py_index_from (Suc k) ys x = Some j"
      using Cons.prems by simp
    from py_index_from_bounds [OF r] have "Suc k \<le> j" by simp
    then have "j - k = Suc (j - Suc k)" by simp
    then show ?thesis
      using Cons.IH [OF r] by simp
  qed
qed

lemma py_index_range:
  "py_index xs x = Inr i \<Longrightarrow> 0 \<le> i \<and> i < int (length xs)"
  by (auto simp: py_index_def split: option.splits dest: py_index_from_bounds)

lemma call_llm_with_retry_frame:
  assumes "call_llm_with_retry env messages s = (r, s1)"
  shows "LLMS s1 = LLMS s" and "self_llm s1 = self_llm s"
    and "self_current_model_index s1 = self_current_model_index s"
  using retrying_frame [of env messages 1 s] assms
  by (simp_all add: call_llm_with_retry_def)

lemma switch_to_next_model_inv:
  assumes "LLMS s \<noteq> []" and "switch_to_next_model env s = (b, s2)"
  shows "b" and "LLMS s2 = LLMS s" and "cursor_in_range s2" and "self_llm s2 \<noteq> None"
    and "trace s2 = trace s" and "world s2 = world s"
proof -
  from assms(1) have pos: "0 < int (length (LLMS s))"
    by simp
  note sw = switch_to_next_model_nonempty [OF assms(1), of env]
  show "b" "LLMS s2 = LLMS s" "self_llm s2 \<noteq> None" "trace s2 = trace s" "world s2 = world s"
    using sw assms(2) by auto
  show "cursor_in_range s2"
    using sw assms(2) pos by (auto simp: cursor_in_range_def)
qed

lemma call_loop_inv:
  "n = N - tried \<Longrightarrow> LLMS s \<noteq> [] \<Longrightarrow> cursor_in_range s \<Longrightarrow>
   call_loop env messages N start tried last_error s = (r, s') \<Longrightarrow>
   LLMS s' = LLMS s \<and> cursor_in_range s'"
proof (induction n arbitrary: tried s last_error)
  case 0
  then show ?case
    by (subst (asm) call_loop.simps) simp
next
  case (Suc n)
  then have lt: "tried < N"
    by simp
  obtain r1 s1 where r: "call_llm_with_retry env messages s = (r1, s1)"
    by (cases "call_llm_with_retry env messages s")
  note fr = call_llm_with_retry_frame [OF r]
  have in1: "cursor_in_range s1" and ne1: "LLMS s1 \<noteq> []"
    using Suc.prems fr by (simp_all add: cursor_in_range_def)
  show ?case
  proof (cases r1)
    case (Inr resp)
    then show ?thesis
      using Suc.prems(4) lt fr in1
      by (subst (asm) call_loop.simps) (auto simp: r)
  next
    case (Inl e)
    have cur: "py_getitem (LLMS s1) (self_current_model_index s1)
                 = Inr (LLMS s1 ! nat (self_current_model_index s1))"
      using in1 by (simp add: py_getitem_in_range cursor_in_range_def)
    show ?thesis
    proof (cases "N \<le> Suc tried")
      case True
      then show ?thesis
        using Suc.prems(4) lt fr in1
        by (subst (asm) call_loop.simps) (auto simp: r Inl cur split: sum.splits)
    next
      case False
      obtain b s2 where sw: "switch_to_next_model env s1 = (b, s2)"
        by (cases "switch_to_next_model env s1")
      note si = switch_to_next_model_inv [OF ne1 sw]
      have n: "n = N - Suc tried"
        using Suc.prems(1) by simp
      have rec: "call_loop env messages N start (Suc tried) (Some e) s2 = (r, s')"
        using Suc.prems(4) lt False si(1)
        by (subst (asm) call_loop.simps) (simp add: r Inl cur sw)
      from Suc.IH [OF n _ si(3) rec] si(2) ne1 fr
      show ?thesis
        by simp
    qed
  qed
qed


lemma ensure_initialized_nonempty:
  "LLMS s \<noteq> [] \<Longrightarrow> ensure_initialized env s = (Inr (), s)"
  by (simp add: ensure_initialized_def)

lemma LLMRegistry_get_nonempty:
  assumes "LLMS s \<noteq> []"
  shows "LLMRegistry_get env n kw s =
           ((case find_entry (LLMS s) n of
               None \<Rightarrow> Inl (Exn ValueError (not_found_message (LLMS s) n))
             | Some model_entry \<Rightarrow>
                 if kw \<noteq> [] then create_with_kwargs env n kw else Inr (llm model_entry)), s)"
  using assms
  by (simp add: LLMRegistry_get_def ensure_initialized_nonempty split: option.splits)

lemma get_all_names_nonempty:
  "LLMS s \<noteq> [] \<Longrightarrow> get_all_names env s = (Inr (map name (LLMS s)), s)"
  by (simp add: get_all_names_def ensure_initialized_nonempty)

lemma select_requested_model_inv:
  assumes "LLMS s \<noteq> []" and "cursor_in_range s"
    and "select_requested_model env model_name kw s = (r, s1)"
  shows "LLMS s1 = LLMS s" and "cursor_in_range s1" and "trace s1 = trace s"
    and "world s1 = world s"
proof -
  have "LLMS s1 = LLMS s \<and> cursor_in_range s1 \<and> trace s1 = trace s \<and> world s1 = world s"
  proof (cases "model_name = None \<or> model_name = Some []")
    case True
    then show ?thesis
      using assms by (auto simp: select_requested_model_def)
  next
    case False
    then obtain n where n: "model_name = Some n" "n \<noteq> []"
      by (cases model_name) auto
    obtain g where g: "LLMRegistry_get env n kw s = (g, s)"
      using LLMRegistry_get_nonempty [OF assms(1)] by blast
    show ?thesis
    proof (cases g)
      case (Inl e)
      then show ?thesis
        using assms n g by (simp add: select_requested_model_def)
    next
      case (Inr h)
      have names: "get_all_names env (s\<lparr>self_llm := Some h\<rparr>)
                     = (Inr (map name (LLMS s)), s\<lparr>self_llm := Some h\<rparr>)"
        using get_all_names_nonempty [of "s\<lparr>self_llm := Some h\<rparr>" env] assms(1) by simp
      show ?thesis
      proof (cases "py_index (map name (LLMS s)) n")
        case (Inl e)
        then show ?thesis
          using assms n g Inr names
          by (auto simp: select_requested_model_def cursor_in_range_def)
      next
        case i: (Inr i)
        from py_index_range [OF i] show ?thesis
          using assms n g Inr names i
          by (auto simp: select_requested_model_def cursor_in_range_def)
      qed
    qed
  qed
  then show "LLMS s1 = LLMS s" and "cursor_in_range s1" and "trace s1 = trace s"
    and "world s1 = world s"
    by simp_all
qed

lemma call_inv:
  assumes "LLMS s \<noteq> []" and "cursor_in_range s"
  shows "LLMS (snd (call env messages model_name kw s)) = LLMS s
         \<and> cursor_in_range (snd (call env messages model_name kw s))"
proof -
  obtain r s1 where sel: "select_requested_model env model_name kw s = (r, s1)"
    by (cases "select_requested_model env model_name kw s")
  note si = select_requested_model_inv [OF assms sel]
  show ?thesis
  proof (cases r)
    case (Inl e)
    then show ?thesis
      using sel si by (simp add: call_def)
  next
    case (Inr u)
    obtain r2 s2 where
      loop: "call_loop env messages (length (LLMS s1)) (self_current_model_index s1) 0 None s1
               = (r2, s2)"
      by (cases "call_loop env messages (length (LLMS s1)) (self_current_model_index s1) 0 None s1")
    have ne: "LLMS s1 \<noteq> []"
      using si assms by simp
    from call_loop_inv [OF refl ne si(2) loop] show ?thesis
      using sel Inr loop si by (simp add: call_def)
  qed
qed

lemma apply_op_inv:
  assumes "LLMS s \<noteq> []" and "cursor_in_range s"
  shows "LLMS (apply_op env operation s) = LLMS s \<and> cursor_in_range (apply_op env operation s)"
proof (cases operation)
  case (Call messages model_name kw)
  then show ?thesis
    using call_inv [OF assms] by simp
next
  case Rotate
  obtain b s2 where sw: "switch_to_next_model env s = (b, s2)"
    by (cases "switch_to_next_model env s")
  from switch_to_next_model_inv [OF assms(1) sw] show ?thesis
    using Rotate sw by simp
next
  case (BindTools tools)
  then show ?thesis
    using assms by (auto simp: bind_tools_def cursor_in_range_def split: option.splits)
qed

lemma run_ops_inv:
  "LLMS s \<noteq> [] \<Longrightarrow> cursor_in_range s \<Longrightarrow>
   LLMS (run_ops env ops s) = LLMS s \<and> cursor_in_range (run_ops env ops s)"
proof (induction ops arbitrary: s)
  case Nil
  then show ?case by (simp add: run_ops_def)
next
  case (Cons operation ops)
  from apply_op_inv [OF Cons.prems, of env operation]
  have a: "LLMS (apply_op env operation s) = LLMS s" "cursor_in_range (apply_op env operation s)"
    by simp_all
  have "LLMS (apply_op env operation s) \<noteq> []"
    using a Cons.prems by simp
  from Cons.IH [OF this a(2)] a(1) show ?case
    by (simp add: run_ops_def)
qed

lemma get_llms_nonempty: "get_llms env = Inr models \<Longrightarrow> models \<noteq> []"
  by (auto simp: get_llms_def Let_def split: if_splits)

lemma LLMService_init_establishes:
  assumes "LLMService_init env s0 = (Inr u, s)"
  shows "LLMS s \<noteq> [] \<and> cursor_in_range s \<and> self_llm s \<noteq> None"
proof -
  let ?s0 = "s0\<lparr>self_llm := None, self_current_model_index := 0\<rparr>"
  obtain models where m: "get_llms env = Inr models"
    using assms by (cases "get_llms env") (auto simp: LLMService_init_def initialize_def)
  have ne: "models \<noteq> []"
    using get_llms_nonempty [OF m] .
  let ?s1 = "?s0\<lparr>LLMS := models\<rparr>"
  have i: "initialize env ?s0 = (Inr (), ?s1)"
    using m by (simp add: initialize_def)
  have names: "get_all_names env ?s1 = (Inr (map name models), ?s1)"
    using get_all_names_nonempty [of ?s1 env] ne by simp
  have first: "py_getitem models 0 = Inr (models ! 0)"
    using ne by (simp add: py_getitem_def Let_def)
  show ?thesis
  proof (cases "py_index (map name models) (DEFAULT_LLM_MODEL env)")
    case (Inl e)
    then have "init_try_default env (map name models) ?s1 = (Inl e, ?s1)"
      by (simp add: init_try_default_def)
    then show ?thesis
      using assms i names ne first
      by (auto simp: LLMService_init_def cursor_in_range_def)
  next
    case idx: (Inr k)
    from py_index_range [OF idx] have k: "0 \<le> k" "k < int (length models)"
      by simp_all
    let ?s2 = "?s1\<lparr>self_current_model_index := k\<rparr>"
    obtain g where g: "LLMRegistry_get env (DEFAULT_LLM_MODEL env) [] ?s2 = (g, ?s2)"
      using LLMRegistry_get_nonempty [of ?s2 env] ne by simp
    show ?thesis
    proof (cases g)
      case (Inl e)
      then have "init_try_default env (map name models) ?s1 = (Inl e, ?s2)"
        using idx g by (simp add: init_try_default_def)
      then show ?thesis
        using assms i names ne first
        by (auto simp: LLMService_init_def cursor_in_range_def)
    next
      case (Inr h)
      then have "init_try_default env (map name models) ?s1 = (Inr (), ?s2\<lparr>self_llm := Some h\<rparr>)"
        using idx g by (simp add: init_try_default_def)
      then show ?thesis
        using assms i names ne k
        by (auto simp: LLMService_init_def cursor_in_range_def)
    qed
  qed
qed

text \<open>
  C7. After a successful \<^verbatim>\<open>LLMService.__init__\<close> the registry has \<open>N \<ge> 1\<close> entries, and
  after every sequence of calls (with any model name, registered or not, and any keyword
  arguments), rotations and tool bindings the registry is the same and the cursor is in
  \<open>[0, N)\<close>.
\<close>

theorem cursor_always_in_range:
  assumes "LLMService_init env s0 = (Inr u, s)"
  shows "1 \<le> length (LLMS s)
         \<and> LLMS (run_ops env ops s) = LLMS s
         \<and> 0 \<le> self_current_model_index (run_ops env ops s)
         \<and> self_current_model_index (run_ops env ops s) < int (length (LLMS s))"
proof -
  from LLMService_init_establishes [OF assms]
  have ne: "LLMS s \<noteq> []" and r: "cursor_in_range s"
    by simp_all
  from run_ops_inv [OF ne r, of env ops] ne show ?thesis
    by (cases "LLMS s") (auto simp: cursor_in_range_def)
qed


section \<open>The error after a full cycle\<close>

text \<open>
  An exception that leaves the retry unit is the exception of the last invocation made,
  or the exception that the log hook raised on it.
\<close>

lemma retrying_failure_is_last_attempt:
  "self_llm s = Some h \<Longrightarrow> retrying env messages k s = (Inl e, s') \<Longrightarrow>
   trace s' \<noteq> []
   \<and> (\<exists>e0. last (trace s') = Invoke h (Inl e0)
            \<and> (e = e0 \<or> (\<exists>j. before_sleep_log env e0 j = Inl e)))"
proof (induction env messages k s rule: retrying.induct)
  case (1 env messages attempt_number s)
  note b = call_llm_body_some [OF \<open>self_llm s = Some h\<close>, of env messages]
  show ?case
  proof (cases "fst (ainvoke env h messages (world s))")
    case (Inr r)
    then show ?thesis
      using "1.prems"(2) by (subst (asm) retrying.simps) (simp add: b)
  next
    case (Inl e1)
    let ?s1 = "s\<lparr>world := snd (ainvoke env h messages (world s)),
                  trace := trace s @ [Invoke h (Inl e1)]\<rparr>"
    show ?thesis
    proof (cases "stop_after_attempt (MAX_LLM_CALL_RETRIES env) attempt_number")
      case True
      then have "e = e1 \<and> s' = ?s1"
        using "1.prems"(2)
        by (subst (asm) retrying.simps)
           (auto simp: b Inl retry_if_exception_type_Exception_def)
      then show ?thesis
        by auto
    next
      case False
      show ?thesis
      proof (cases "before_sleep_log env e1 attempt_number")
        case hook: (Inl x)
        then have "e = x \<and> s' = ?s1"
          using "1.prems"(2) False
          by (subst (asm) retrying.simps)
             (auto simp: b Inl retry_if_exception_type_Exception_def)
        then show ?thesis
          using hook by auto
      next
        case hook: (Inr u)
        have b': "(Inl e1, ?s1) = call_llm_body env messages s"
          using b Inl by simp
        have nn: "\<not> \<not> retry_if_exception_type_Exception e1"
          by (simp add: retry_if_exception_type_Exception_def)
        have r: "retrying env messages (Suc attempt_number)
                   (?s1\<lparr>trace := trace ?s1 @ [Sleep (wait_exponential attempt_number)]\<rparr>)
                   = (Inl e, s')"
          using "1.prems"(2) False
          by (subst (asm) retrying.simps)
             (simp add: b Inl hook retry_if_exception_type_Exception_def)
        show ?thesis
          using "1.IH" [OF b' refl nn False hook _ r] "1.prems"(1)
          by simp
      qed
    qed
  qed
qed

lemma call_llm_with_retry_failure_is_last_attempt:
  "self_llm s = Some h \<Longrightarrow> call_llm_with_retry env messages s = (Inl e, s') \<Longrightarrow>
   trace s' \<noteq> []
   \<and> (\<exists>e0. last (trace s') = Invoke h (Inl e0)
            \<and> (e = e0 \<or> (\<exists>j. before_sleep_log env e0 j = Inl e)))"
  using retrying_failure_is_last_attempt [of s h env messages 1 e s']
  by (simp add: call_llm_with_retry_def)

lemma call_loop_failure_is_aggregate:
  "n = N - tried \<Longrightarrow> tried < N \<Longrightarrow> N = length (LLMS s) \<Longrightarrow> cursor_in_range s \<Longrightarrow>
   0 \<le> start \<Longrightarrow> start < int N \<Longrightarrow> self_llm s = Some h0 \<Longrightarrow>
   call_loop env messages N start tried last_error s = (Inl x, s') \<Longrightarrow>
   \<exists>e h e0. x = all_failed N (Some e) \<and> trace s' \<noteq> []
     \<and> last (trace s') = Invoke h (Inl e0)
     \<and> (e = e0 \<or> (\<exists>j. before_sleep_log env e0 j = Inl e))"
proof (induction n arbitrary: tried s h0 last_error)
  case 0
  then show ?case by simp
next
  case (Suc n)
  have lt: "tried < N"
    using Suc.prems by simp
  obtain r1 s1 where r: "call_llm_with_retry env messages s = (r1, s1)"
    by (cases "call_llm_with_retry env messages s")
  note fr = call_llm_with_retry_frame [OF r]
  have in1: "cursor_in_range s1" and ne1: "LLMS s1 \<noteq> []" and len1: "N = length (LLMS s1)"
    using Suc.prems fr by (auto simp: cursor_in_range_def)
  show ?case
  proof (cases r1)
    case (Inr resp)
    then show ?thesis
      using Suc.prems(8) lt
      by (subst (asm) call_loop.simps) (simp add: r)
  next
    case (Inl e1)
    from call_llm_with_retry_failure_is_last_attempt [OF \<open>self_llm s = Some h0\<close>]
    have la: "trace s1 \<noteq> []"
      "\<exists>e0. last (trace s1) = Invoke h0 (Inl e0)
            \<and> (e1 = e0 \<or> (\<exists>j. before_sleep_log env e0 j = Inl e1))"
      using r Inl by simp_all
    have cur: "py_getitem (LLMS s1) (self_current_model_index s1)
                 = Inr (LLMS s1 ! nat (self_current_model_index s1))"
      using in1 by (simp add: py_getitem_in_range cursor_in_range_def)
    have st: "py_getitem (LLMS s1) start = Inr (LLMS s1 ! nat start)"
      using Suc.prems len1 by (simp add: py_getitem_in_range)
    show ?thesis
    proof (cases "N \<le> Suc tried")
      case True
      then have "Suc tried = N"
        using lt by simp
      moreover have "x = all_failed (Suc tried) (Some e1) \<and> s' = s1"
        using Suc.prems(8) lt True
        by (subst (asm) call_loop.simps) (simp add: r Inl cur st)
      ultimately show ?thesis
        using la by blast
    next
      case False
      obtain b s2 where sw: "switch_to_next_model env s1 = (b, s2)"
        by (cases "switch_to_next_model env s1")
      note si = switch_to_next_model_inv [OF ne1 sw]
      obtain h2 where h2: "self_llm s2 = Some h2"
        using si(4) by auto
      have n: "n = N - Suc tried" and lt': "Suc tried < N"
        using Suc.prems(1) False by simp_all
      have len2: "N = length (LLMS s2)"
        using len1 si(2) by simp
      have rec: "call_loop env messages N start (Suc tried) (Some e1) s2 = (Inl x, s')"
        using Suc.prems(8) lt False si(1)
        by (subst (asm) call_loop.simps) (simp add: r Inl cur sw)
      from Suc.IH [OF n lt' len2 si(3) \<open>0 \<le> start\<close> \<open>start < int N\<close> h2 rec]
      show ?thesis .
    qed
  qed
qed

lemma select_requested_model_keeps_handle:
  assumes "self_llm s \<noteq> None" and "select_requested_model env model_name kw s = (r, s1)"
  shows "self_llm s1 \<noteq> None"
  using assms
  by (auto simp: select_requested_model_def get_all_names_def ensure_initialized_def
        initialize_def LLMRegistry_get_def
      split: option.splits if_splits sum.splits prod.splits)

text \<open>
  C3, as the code has it. On a service with \<open>N \<ge> 1\<close> entries, the cursor in range and a
  current handle, a call that gets past the selection of the model and fails raises a
  \<^verbatim>\<open>RuntimeError\<close> whose message gives the number of models tried, which is \<open>N\<close>, and the
  message of the last error that left the retry unit: the exception of the last
  invocation made, or the exception that the log hook raised on it. The name of the
  starting model is not part of the message.
\<close>

theorem call_failure_names_count_and_last_error:
  assumes "LLMS s \<noteq> []"
    and "0 \<le> self_current_model_index s"
    and "self_current_model_index s < int (length (LLMS s))"
    and "self_llm s \<noteq> None"
    and "select_requested_model env model_name model_kwargs s = (Inr u, s1)"
    and "call env messages model_name model_kwargs s = (Inl x, s')"
  shows "\<exists>e h e0. x = Exn RuntimeError
                     (''failed to get response from llm after trying ''
                        @ str_nat (length (LLMS s)) @ '' models. last error: '' @ exc_str e)
           \<and> trace s' \<noteq> [] \<and> last (trace s') = Invoke h (Inl e0)
           \<and> (e = e0 \<or> (\<exists>j. before_sleep_log env e0 j = Inl e))"
proof -
  have r0: "cursor_in_range s"
    using assms(2,3) by (simp add: cursor_in_range_def)
  note si = select_requested_model_inv [OF assms(1) r0 assms(5)]
  obtain h0 where h0: "self_llm s1 = Some h0"
    using select_requested_model_keeps_handle [OF assms(4,5)] by auto
  have N: "0 < length (LLMS s1)"
    using assms(1) si(1) by simp
  have c: "0 \<le> self_current_model_index s1"
    "self_current_model_index s1 < int (length (LLMS s1))"
    using si(2) by (simp_all add: cursor_in_range_def)
  have loop: "call_loop env messages (length (LLMS s1)) (self_current_model_index s1) 0 None s1
                = (Inl x, s')"
    using assms(5,6) by (simp add: call_def)
  have n: "length (LLMS s1) = length (LLMS s1) - 0"
    by simp
  from call_loop_failure_is_aggregate [OF n N refl si(2) c h0 loop]
  show ?thesis
    by (simp add: all_failed_def all_failed_message_def si(1))
qed

section \<open>One rotation, and a cursor that stays\<close>

lemma call_success_sticky:
  assumes "LLMS s \<noteq> []" and "self_llm s = Some h"
    and "\<And>w. \<not> isl (fst (ainvoke env h messages w))"
  shows "\<exists>r w. call env messages None [] s
                 = (Inr r, s\<lparr>world := w, trace := trace s @ [Invoke h (Inr r)]\<rparr>)"
proof -
  obtain r w where inv: "ainvoke env h messages (world s) = (Inr r, w)"
    using assms(3) [of "world s"]
    by (cases "ainvoke env h messages (world s)"; cases "fst (ainvoke env h messages (world s))")
       auto
  have N: "0 < length (LLMS s)"
    using assms(1) by simp
  have "call_loop env messages (length (LLMS s)) (self_current_model_index s) 0 None s
          = (Inr r, s\<lparr>world := w, trace := trace s @ [Invoke h (Inr r)]\<rparr>)"
    using N
    by (subst call_loop.simps)
       (simp add: call_llm_with_retry_def retrying_succeeds [OF assms(2) inv])
  then show ?thesis
    by (auto simp: call_def select_requested_model_def)
qed

lemma plain_calls_sticky:
  assumes "\<And>messages w. \<not> isl (fst (ainvoke env h messages w))"
  shows "LLMS s \<noteq> [] \<Longrightarrow> self_llm s = Some h \<Longrightarrow>
         LLMS (run_ops env (map (\<lambda>messages. Call messages None []) ms) s) = LLMS s
         \<and> self_llm (run_ops env (map (\<lambda>messages. Call messages None []) ms) s) = Some h
         \<and> self_current_model_index (run_ops env (map (\<lambda>messages. Call messages None []) ms) s)
             = self_current_model_index s
         \<and> invoked (trace (run_ops env (map (\<lambda>messages. Call messages None []) ms) s))
             = invoked (trace s) @ replicate (length ms) h"
proof (induction ms arbitrary: s)
  case Nil
  then show ?case by (simp add: run_ops_def)
next
  case (Cons m ms)
  from call_success_sticky [OF Cons.prems assms, of m]
  obtain r w where
    c: "call env m None [] s = (Inr r, s\<lparr>world := w, trace := trace s @ [Invoke h (Inr r)]\<rparr>)"
    by blast
  let ?s1 = "s\<lparr>world := w, trace := trace s @ [Invoke h (Inr r)]\<rparr>"
  have "LLMS ?s1 \<noteq> []" "self_llm ?s1 = Some h"
    using Cons.prems by simp_all
  from Cons.IH [OF this] show ?case
    using c by (simp add: run_ops_def replicate_app_Cons_same)
qed

text \<open>
  C4. On a registry of \<open>N \<ge> 2\<close> entries, when the handle of the cursor's entry \<open>c\<close> fails
  at every invocation (whatever the class of the exception) and the handle of every other
  entry always answers, \<open>call\<close> returns a response; it has invoked the failing handle at
  least once and at most \<open>attempts_per_model\<close> times and then the next entry's handle
  once, so that one rotation has been made; the cursor is \<open>(c + 1) mod N\<close> and the next
  entry's handle is current; and after any sequence of further calls without a model name
  the cursor is still \<open>(c + 1) mod N\<close>.
\<close>

theorem call_falls_back_once_and_sticks:
  assumes "2 \<le> length (LLMS s)"
    and "self_current_model_index s = int c" and "c < length (LLMS s)"
    and "self_llm s = Some (llm (LLMS s ! c))"
    and "\<forall>msgs w. isl (fst (ainvoke env (llm (LLMS s ! c)) msgs w))"
    and "\<forall>i < length (LLMS s). i \<noteq> c \<longrightarrow>
           (\<forall>msgs w. \<not> isl (fst (ainvoke env (llm (LLMS s ! i)) msgs w)))"
  shows "\<exists>r s1 tr n. call env messages None [] s = (Inr r, s1)
           \<and> LLMS s1 = LLMS s
           \<and> self_current_model_index s1 = int ((c + 1) mod length (LLMS s))
           \<and> self_llm s1 = Some (llm (LLMS s ! ((c + 1) mod length (LLMS s))))
           \<and> trace s1 = trace s @ tr
           \<and> invoked tr = replicate n (llm (LLMS s ! c))
                            @ [llm (LLMS s ! ((c + 1) mod length (LLMS s)))]
           \<and> 1 \<le> n \<and> n \<le> attempts_per_model env
           \<and> (\<forall>later. self_current_model_index
                         (run_ops env (map (\<lambda>msgs. Call msgs None []) later) s1)
                       = int ((c + 1) mod length (LLMS s)))"
proof -
  let ?N = "length (LLMS s)"
  let ?k = "(c + 1) mod ?N"
  let ?h0 = "llm (LLMS s ! c)"
  let ?h1 = "llm (LLMS s ! ?k)"
  have N: "0 < ?N" "1 < ?N" and ne: "LLMS s \<noteq> []"
    using assms(1) by auto
  have k: "?k < ?N"
    using N by simp
  have kc: "?k \<noteq> c"
  proof (cases "Suc c = ?N")
    case True
    then show ?thesis using N by simp
  next
    case False
    then have "Suc c < ?N" using assms(3) by simp
    then show ?thesis by simp
  qed
  have ok: "\<And>msgs w. \<not> isl (fst (ainvoke env ?h1 msgs w))"
    using assms(6) k kc by blast
  have fail: "\<And>w. isl (fst (ainvoke env ?h0 messages w))"
    using assms(5) by blast
  from call_llm_with_retry_all_fail [of env ?h0 messages s, OF fail assms(4)]
  obtain e1 w1 tr1 n1 where
    r: "call_llm_with_retry env messages s = (Inl e1, s\<lparr>world := w1, trace := trace s @ tr1\<rparr>)"
    and i1: "invoked tr1 = replicate n1 ?h0"
    and n1: "1 \<le> n1" "n1 \<le> attempts_per_model env"
    by blast
  let ?s1 = "s\<lparr>world := w1, trace := trace s @ tr1\<rparr>"
  have cur: "py_getitem (LLMS s) (self_current_model_index s) = Inr (LLMS s ! c)"
    using assms(2,3) by (simp add: py_getitem_nat)
  have ne1: "LLMS ?s1 \<noteq> []"
    using ne by simp
  define s2 where "s2 = ?s1\<lparr>self_current_model_index := int ?k, self_llm := Some ?h1\<rparr>"
  have idx: "(self_current_model_index ?s1 + 1) mod int (length (LLMS ?s1)) = int ?k"
    using assms(2) by (simp add: zmod_int add.commute)
  have sw: "switch_to_next_model env ?s1 = (True, s2)"
    using switch_to_next_model_nonempty [OF ne1, of env] idx by (simp add: s2_def)
  have f2: "LLMS s2 = LLMS s" "self_llm s2 = Some ?h1" "self_current_model_index s2 = int ?k"
    "trace s2 = trace s @ tr1"
    by (simp_all add: s2_def)
  obtain r2 w2 where inv2: "ainvoke env ?h1 messages (world s2) = (Inr r2, w2)"
    using ok [of messages "world s2"]
    by (cases "ainvoke env ?h1 messages (world s2)";
        cases "fst (ainvoke env ?h1 messages (world s2))") auto
  define s3 where "s3 = s2\<lparr>world := w2, trace := trace s2 @ [Invoke ?h1 (Inr r2)]\<rparr>"
  have f3: "LLMS s3 = LLMS s" "self_llm s3 = Some ?h1" "self_current_model_index s3 = int ?k"
    "trace s3 = trace s @ (tr1 @ [Invoke ?h1 (Inr r2)])"
    using f2 by (simp_all add: s3_def)
  have retry2: "call_llm_with_retry env messages s2 = (Inr r2, s3)"
    using retrying_succeeds [OF f2(2) inv2] by (simp add: call_llm_with_retry_def s3_def)
  have second: "call_loop env messages ?N (self_current_model_index s) (Suc 0) (Some e1) s2
                  = (Inr r2, s3)"
    using N by (subst call_loop.simps) (simp add: retry2)
  have first: "call_loop env messages ?N (self_current_model_index s) 0 None s = (Inr r2, s3)"
    using N second
    by (subst call_loop.simps) (simp add: r cur sw)
  have c: "call env messages None [] s = (Inr r2, s3)"
    using first by (simp add: call_def select_requested_model_def)
  have ne3: "LLMS s3 \<noteq> []"
    using ne f3 by simp
  have sticky: "self_current_model_index
                  (run_ops env (map (\<lambda>msgs. Call msgs None []) later) s3) = int ?k" for later
    using plain_calls_sticky [of env ?h1 s3 later, OF ok ne3 f3(2)] f3(3) by simp
  have inv: "invoked (tr1 @ [Invoke ?h1 (Inr r2)]) = replicate n1 ?h0 @ [?h1]"
    using i1 by simp
  show ?thesis
    using c f3 inv sticky n1
    by (intro exI [of _ r2] exI [of _ s3] exI [of _ "tr1 @ [Invoke ?h1 (Inr r2)]"]
          exI [of _ n1]) simp
qed


section \<open>Concrete runs\<close>

text \<open>The example configurations, run by rewriting with the definitions.\<close>

lemma ex_LLMS:
  "LLMS ex_state = [\<lparr>name = ''alpha'', llm = ''alpha''\<rparr>, \<lparr>name = ''beta'', llm = ''beta''\<rparr>,
                    \<lparr>name = ''gamma'', llm = ''gamma''\<rparr>]"
  by (simp add: ex_state_def)

lemma str_nat_3: "str_nat 3 = ''3''"
  by (simp add: str_nat.simps digit_char_def)

lemma str_nat_3_Suc: "str_nat (Suc (Suc (Suc 0))) = ''3''"
  using str_nat_3 by (simp add: numeral_3_eq_3)

lemma ex_call_fallback:
  "call ex_env [] None [] ex_state =
     (Inr (BaseMessage ''ai'' ''beta''),
      ex_state\<lparr>self_llm := Some ''beta'', self_current_model_index := 1, world := 2,
               trace := [Invoke ''alpha'' (Inl (Exn ValueError ''boom'')),
                         Invoke ''beta'' (Inr (BaseMessage ''ai'' ''beta''))]\<rparr>)"
  by (simp add: call_def select_requested_model_def call_loop.simps call_llm_with_retry_def
        retrying.simps call_llm_body_def isinstance_def get_retry_exceptions_def
        retry_if_exception_type_Exception_def stop_after_attempt_def py_getitem_def
        switch_to_next_model_def get_next_model_index_def get_model_at_index_def
        ensure_initialized_def ex_env_def ex_state_def)

lemma ex_call_down:
  "call ex_env_down [] None [] ex_state =
     (Inl (Exn RuntimeError
             ''failed to get response from llm after trying 3 models. last error: level must be an integer''),
      ex_state\<lparr>self_llm := Some ''gamma'', self_current_model_index := 2, world := 3,
               trace := [Invoke ''alpha'' (Inl (Exn ValueError ''boom'')),
                         Invoke ''beta'' (Inl (Exn ValueError ''boom'')),
                         Invoke ''gamma'' (Inl (Exn ValueError ''boom''))]\<rparr>)"
  by (simp add: call_def select_requested_model_def call_loop.simps call_llm_with_retry_def
        retrying.simps call_llm_body_def isinstance_def get_retry_exceptions_def
        retry_if_exception_type_Exception_def stop_after_attempt_def py_getitem_def
        switch_to_next_model_def get_next_model_index_def get_model_at_index_def
        ensure_initialized_def all_failed_def all_failed_message_def str_nat_3_Suc
        ex_env_down_def ex_env_def ex_state_def)

lemma ex_init: "LLMService_init ex_env ex_boot = (Inr (), ex_state)"
  by (simp add: LLMService_init_def initialize_def get_llms_def create_for_provider_def
        get_all_names_def ensure_initialized_def init_try_default_def py_index_def
        LLMRegistry_get_def ex_env_def ex_boot_def ex_state_def)


text \<open>
  The theorem for C3 at the configuration in which every handle fails: the call from the
  entry \<open>alpha\<close> fails after three models, and the last error is the one of the log hook.
\<close>

theorem call_failure_names_count_and_last_error_witness:
  "LLMS ex_state \<noteq> []
   \<and> 0 \<le> self_current_model_index ex_state
   \<and> self_current_model_index ex_state < int (length (LLMS ex_state))
   \<and> self_llm ex_state \<noteq> None
   \<and> select_requested_model ex_env_down None [] ex_state = (Inr (), ex_state)
   \<and> fst (call ex_env_down [] None [] ex_state)
       = Inl (Exn RuntimeError
                ''failed to get response from llm after trying 3 models. last error: level must be an integer'')
   \<and> (\<exists>e h e0. Exn RuntimeError
                ''failed to get response from llm after trying 3 models. last error: level must be an integer''
              = Exn RuntimeError
                  (''failed to get response from llm after trying ''
                     @ str_nat (length (LLMS ex_state)) @ '' models. last error: '' @ exc_str e)
            \<and> trace (snd (call ex_env_down [] None [] ex_state)) \<noteq> []
            \<and> last (trace (snd (call ex_env_down [] None [] ex_state))) = Invoke h (Inl e0)
            \<and> (e = e0 \<or> (\<exists>j. before_sleep_log ex_env_down e0 j = Inl e)))"
proof -
  have h1: "LLMS ex_state \<noteq> []"
    and h2: "0 \<le> self_current_model_index ex_state"
    and h3: "self_current_model_index ex_state < int (length (LLMS ex_state))"
    and h4: "self_llm ex_state \<noteq> None"
    by (simp_all add: ex_state_def)
  have h5: "select_requested_model ex_env_down None [] ex_state = (Inr (), ex_state)"
    by (simp add: select_requested_model_def)
  have h6: "call ex_env_down [] None [] ex_state
              = (Inl (Exn RuntimeError
                        ''failed to get response from llm after trying 3 models. last error: level must be an integer''),
                 snd (call ex_env_down [] None [] ex_state))"
    by (simp add: ex_call_down)
  have f: "fst (call ex_env_down [] None [] ex_state)
             = Inl (Exn RuntimeError
                      ''failed to get response from llm after trying 3 models. last error: level must be an integer'')"
    by (simp add: ex_call_down)
  note c = call_failure_names_count_and_last_error [OF h1 h2 h3 h4 h5 h6]
  show ?thesis
    by (intro conjI) (rule h1 h2 h3 h4 h5 f c)+
qed

text \<open>
  C3, as the specification states it, fails: the cycle started at the entry named
  \<open>alpha\<close>, and that name does not occur in the message of the error raised.
\<close>

theorem call_failure_message_omits_starting_model:
  "fst (call ex_env_down [] None [] ex_state)
     = Inl (Exn RuntimeError
              ''failed to get response from llm after trying 3 models. last error: level must be an integer'')
   \<and> name (LLMS ex_state ! nat (self_current_model_index ex_state)) = ''alpha''
   \<and> \<not> sublist ''alpha''
          ''failed to get response from llm after trying 3 models. last error: level must be an integer''"
  by (simp add: ex_call_down sublist_code) (simp add: ex_state_def)

text \<open>
  The theorem for C4 at the example: \<open>alpha\<close> fails with a \<^verbatim>\<open>ValueError\<close>, which is not
  retryable, and the others answer.
\<close>

theorem call_falls_back_once_and_sticks_witness:
  "2 \<le> length (LLMS ex_state)
   \<and> self_current_model_index ex_state = int 0 \<and> 0 < length (LLMS ex_state)
   \<and> self_llm ex_state = Some (llm (LLMS ex_state ! 0))
   \<and> (\<forall>msgs w. isl (fst (ainvoke ex_env (llm (LLMS ex_state ! 0)) msgs w)))
   \<and> (\<forall>msgs w. \<not> isl (fst (ainvoke ex_env (llm (LLMS ex_state ! 1)) msgs w)))
   \<and> (\<forall>msgs w. \<not> isl (fst (ainvoke ex_env (llm (LLMS ex_state ! 2)) msgs w)))
   \<and> (\<exists>r s1. call ex_env [] None [] ex_state = (Inr r, s1)
          \<and> self_current_model_index s1 = 1
          \<and> self_llm s1 = Some ''beta''
          \<and> invoked (trace s1) = [''alpha'', ''beta'']
          \<and> (\<forall>later. self_current_model_index
                        (run_ops ex_env (map (\<lambda>msgs. Call msgs None []) later) s1) = 1))"
proof -
  have h1: "2 \<le> length (LLMS ex_state)"
    and h2: "self_current_model_index ex_state = int 0"
    and h3: "0 < length (LLMS ex_state)"
    and h4: "self_llm ex_state = Some (llm (LLMS ex_state ! 0))"
    by (simp_all add: ex_state_def)
  have h5: "\<forall>msgs w. isl (fst (ainvoke ex_env (llm (LLMS ex_state ! 0)) msgs w))"
    by (simp add: ex_env_def ex_state_def)
  have h6: "\<forall>i < length (LLMS ex_state). i \<noteq> 0 \<longrightarrow>
              (\<forall>msgs w. \<not> isl (fst (ainvoke ex_env (llm (LLMS ex_state ! i)) msgs w)))"
    by (simp add: ex_env_def ex_state_def less_Suc_eq)
  have len: "length (LLMS ex_state) = 3"
    by (simp add: ex_state_def)
  from call_falls_back_once_and_sticks [OF h1 h2 h3 h4 h5 h6, of "[]"]
  obtain r s1 where
    c: "call ex_env [] None [] ex_state = (Inr r, s1)"
    and st: "\<forall>later. self_current_model_index
                        (run_ops ex_env (map (\<lambda>msgs. Call msgs None []) later) s1)
                      = int ((0 + 1) mod length (LLMS ex_state))"
    by blast
  have s1: "s1 = snd (call ex_env [] None [] ex_state)"
    using c by simp
  have "self_current_model_index s1 = 1" "self_llm s1 = Some ''beta''"
    "invoked (trace s1) = [''alpha'', ''beta'']"
    unfolding s1 by (simp_all add: ex_call_fallback)
  moreover have "\<forall>later. self_current_model_index
                        (run_ops ex_env (map (\<lambda>msgs. Call msgs None []) later) s1) = 1"
    using st by (simp add: len)
  moreover have "\<forall>msgs w. \<not> isl (fst (ainvoke ex_env (llm (LLMS ex_state ! 1)) msgs w))"
    "\<forall>msgs w. \<not> isl (fst (ainvoke ex_env (llm (LLMS ex_state ! 2)) msgs w))"
    by (simp_all add: ex_env_def ex_state_def)
  ultimately show ?thesis
    using h1 h2 h3 h4 h5 c by blast
qed

text \<open>The theorem for C7 at the example, from the construction of the service on.\<close>

theorem cursor_always_in_range_witness:
  "LLMService_init ex_env ex_boot = (Inr (), ex_state)
   \<and> 1 \<le> length (LLMS ex_state)
   \<and> LLMS (run_ops ex_env [Call [] None [], Rotate, Call [] (Some ''nope'') [], Rotate] ex_state)
       = LLMS ex_state
   \<and> 0 \<le> self_current_model_index
            (run_ops ex_env [Call [] None [], Rotate, Call [] (Some ''nope'') [], Rotate] ex_state)
   \<and> self_current_model_index
         (run_ops ex_env [Call [] None [], Rotate, Call [] (Some ''nope'') [], Rotate] ex_state)
       < int (length (LLMS ex_state))"
  using cursor_always_in_range [OF ex_init,
      of "[Call [] None [], Rotate, Call [] (Some ''nope'') [], Rotate]"] ex_init
  by simp

text \<open>
  The theorem for C5 at the configuration in which every handle fails: three models, one
  invocation each, in the order of the registry from the cursor.
\<close>

theorem call_all_fail_tries_every_model_once_witness:
  "LLMS ex_state \<noteq> []
   \<and> 0 \<le> self_current_model_index ex_state
   \<and> self_current_model_index ex_state < int (length (LLMS ex_state))
   \<and> self_llm ex_state = Some (llm (LLMS ex_state ! nat (self_current_model_index ex_state)))
   \<and> (\<forall>h w. isl (fst (ainvoke ex_env_down h [] w)))
   \<and> (\<exists>e s' tr counts.
          call ex_env_down [] None [] ex_state
            = (Inl (all_failed (length (LLMS ex_state)) (Some e)), s')
          \<and> trace s' = trace ex_state @ tr
          \<and> length counts = length (LLMS ex_state)
          \<and> list_all (\<lambda>n. 1 \<le> n \<and> n \<le> attempts_per_model ex_env_down) counts
          \<and> invoked tr
              = concat (map (\<lambda>(n, entry). replicate n (llm entry))
                          (zip counts (rotate (nat (self_current_model_index ex_state))
                                         (LLMS ex_state))))
          \<and> length (rotate (nat (self_current_model_index ex_state)) (LLMS ex_state))
              = length (LLMS ex_state))
   \<and> invoked (trace (snd (call ex_env_down [] None [] ex_state))) = [''alpha'', ''beta'', ''gamma'']"
proof -
  have h1: "LLMS ex_state \<noteq> []"
    and h2: "0 \<le> self_current_model_index ex_state"
    and h3: "self_current_model_index ex_state < int (length (LLMS ex_state))"
    and h4: "self_llm ex_state = Some (llm (LLMS ex_state ! nat (self_current_model_index ex_state)))"
    by (simp_all add: ex_state_def)
  have h5: "\<forall>entry \<in> set (LLMS ex_state). \<forall>w. isl (fst (ainvoke ex_env_down (llm entry) [] w))"
    by (simp add: ex_env_down_def ex_env_def)
  have h5': "\<forall>h w. isl (fst (ainvoke ex_env_down h [] w))"
    by (simp add: ex_env_down_def ex_env_def)
  note c = call_all_fail_tries_every_model_once [OF h1 h2 h3 h4 h5]
  have e: "invoked (trace (snd (call ex_env_down [] None [] ex_state))) = [''alpha'', ''beta'', ''gamma'']"
    by (simp add: ex_call_down)
  show ?thesis
    by (intro conjI) (rule h1 h2 h3 h4 h5' c e)+
qed

section \<open>An unknown model name\<close>

lemma find_entry_absent:
  "n \<notin> set (map name es) \<Longrightarrow> find_entry es n = None"
  by (simp add: find_entry_None)

text \<open>
  C6, as the code has it. On a registry with at least one entry, a call with a model name
  that is not empty and is not the name of an entry returns the \<^verbatim>\<open>ValueError\<close> of the
  registry and leaves the whole state as it was: no handle has been invoked, no rotation
  made, and the cursor and the current handle are unchanged.
\<close>

theorem call_unknown_model_fails_unchanged:
  assumes "LLMS s \<noteq> []" and "model_name \<noteq> []"
    and "model_name \<notin> set (map name (LLMS s))"
  shows "call env messages (Some model_name) model_kwargs s
           = (Inl (Exn ValueError (not_found_message (LLMS s) model_name)), s)"
  using assms
  by (simp add: call_def select_requested_model_def LLMRegistry_get_nonempty find_entry_absent)

theorem call_unknown_model_fails_unchanged_witness:
  "LLMS ex_state \<noteq> [] \<and> ''nope'' \<noteq> [] \<and> ''nope'' \<notin> set (map name (LLMS ex_state))
   \<and> call ex_env [] (Some ''nope'') [] ex_state
       = (Inl (Exn ValueError
                 (''model '' @ [CHR 0x27] @ ''nope'' @ [CHR 0x27]
                    @ '' not found in registry. available models: alpha, beta, gamma'')),
          ex_state)"
proof -
  have h1: "LLMS ex_state \<noteq> []" and h2: "''nope'' \<noteq> []"
    and h3: "''nope'' \<notin> set (map name (LLMS ex_state))"
    by (simp_all add: ex_state_def)
  have m: "not_found_message (LLMS ex_state) ''nope''
             = ''model '' @ [CHR 0x27] @ ''nope'' @ [CHR 0x27]
                 @ '' not found in registry. available models: alpha, beta, gamma''"
    by (simp add: not_found_message_def ex_state_def)
  from call_unknown_model_fails_unchanged [OF h1 h2 h3, of ex_env "[]" "[]"]
  show ?thesis
    using h1 h2 h3 by (simp only: m) simp
qed

text \<open>
  C6, as the specification states it, fails for the empty model name: it is the name of
  no entry, the guard \<^verbatim>\<open>if model_name:\<close> treats it as no name at all, and the call invokes
  the handles, falls back and moves the cursor.
\<close>

theorem call_empty_model_name_invokes_backend:
  "[] \<notin> set (map name (LLMS ex_state))
   \<and> fst (call ex_env [] (Some []) [] ex_state) = Inr (BaseMessage ''ai'' ''beta'')
   \<and> invoked (trace (snd (call ex_env [] (Some []) [] ex_state)))
       = [''alpha'', ''beta'']
   \<and> self_current_model_index ex_state = 0
   \<and> self_current_model_index (snd (call ex_env [] (Some []) [] ex_state)) = 1"
proof -
  have "call ex_env [] (Some []) [] ex_state = call ex_env [] None [] ex_state"
    by (simp add: call_def select_requested_model_def)
  then show ?thesis
    by (simp add: ex_call_fallback) (simp add: ex_state_def)
qed

section \<open>Binding tools\<close>

text \<open>
  C10, as the code has it. \<open>bind_tools\<close> returns the service; without a current handle it
  changes nothing; with a current handle \<open>h\<close> it replaces \<open>h\<close> by the tool-bound handle and
  changes nothing else. When the registry is not empty and the tool-bound handle always
  answers, every later call without a model name is served by the tool-bound handle,
  which stays current.
\<close>

theorem bind_tools_serves_plain_calls:
  "(self_llm s = None \<longrightarrow> bind_tools env tools s = s)
   \<and> (\<forall>h. self_llm s = Some h \<longrightarrow>
         bind_tools env tools s = s\<lparr>self_llm := Some (bind_tools_h env h tools)\<rparr>
         \<and> (LLMS s \<noteq> []
              \<and> (\<forall>msgs w. \<not> isl (fst (ainvoke env (bind_tools_h env h tools) msgs w)))
            \<longrightarrow> (\<forall>later.
                   self_llm (run_ops env (map (\<lambda>msgs. Call msgs None []) later)
                               (bind_tools env tools s))
                     = Some (bind_tools_h env h tools)
                   \<and> invoked (trace (run_ops env (map (\<lambda>msgs. Call msgs None []) later)
                                       (bind_tools env tools s)))
                     = invoked (trace s) @ replicate (length later) (bind_tools_h env h tools))))"
proof (intro conjI allI impI)
  assume "self_llm s = None"
  then show "bind_tools env tools s = s"
    by (simp add: bind_tools_def)
next
  fix h
  assume "self_llm s = Some h"
  then show "bind_tools env tools s = s\<lparr>self_llm := Some (bind_tools_h env h tools)\<rparr>"
    by (simp add: bind_tools_def)
next
  fix h later
  let ?hb = "bind_tools_h env h tools"
  assume h: "self_llm s = Some h"
    and a: "LLMS s \<noteq> [] \<and> (\<forall>msgs w. \<not> isl (fst (ainvoke env ?hb msgs w)))"
  have b: "bind_tools env tools s = s\<lparr>self_llm := Some ?hb\<rparr>"
    using h by (simp add: bind_tools_def)
  have ok: "\<And>msgs w. \<not> isl (fst (ainvoke env ?hb msgs w))"
    using a by blast
  have ne: "LLMS (s\<lparr>self_llm := Some ?hb\<rparr>) \<noteq> []"
    and cur: "self_llm (s\<lparr>self_llm := Some ?hb\<rparr>) = Some ?hb"
    using a by simp_all
  from plain_calls_sticky [of env ?hb "s\<lparr>self_llm := Some ?hb\<rparr>" later, OF ok ne cur]
  show "self_llm (run_ops env (map (\<lambda>msgs. Call msgs None []) later) (bind_tools env tools s))
          = Some ?hb"
    and "invoked (trace (run_ops env (map (\<lambda>msgs. Call msgs None []) later)
                           (bind_tools env tools s)))
          = invoked (trace s) @ replicate (length later) ?hb"
    unfolding b by simp_all
qed


theorem bind_tools_serves_plain_calls_witness:
  "self_llm ex_boot = None \<and> bind_tools ex_env [''search''] ex_boot = ex_boot
   \<and> self_llm ex_state_beta = Some ''beta''
   \<and> bind_tools ex_env [''search''] ex_state_beta = ex_state_beta\<lparr>self_llm := Some ''beta+tools''\<rparr>
   \<and> LLMS ex_state_beta \<noteq> []
   \<and> (\<forall>msgs w. \<not> isl (fst (ainvoke ex_env ''beta+tools'' msgs w)))
   \<and> self_llm (run_ops ex_env (map (\<lambda>msgs. Call msgs None []) [[], []])
                 (bind_tools ex_env [''search''] ex_state_beta)) = Some ''beta+tools''
   \<and> invoked (trace (run_ops ex_env (map (\<lambda>msgs. Call msgs None []) [[], []])
                         (bind_tools ex_env [''search''] ex_state_beta)))
       = [''beta+tools'', ''beta+tools'']"
proof -
  have n: "self_llm ex_boot = None"
    by (simp add: ex_boot_def)
  have b: "self_llm ex_state_beta = Some ''beta''" and ne: "LLMS ex_state_beta \<noteq> []"
    and tr: "trace ex_state_beta = []"
    by (simp_all add: ex_state_beta_def ex_state_def)
  have hb: "bind_tools_h ex_env ''beta'' [''search''] = ''beta+tools''"
    by (simp add: ex_env_def)
  have ok: "\<forall>msgs w. \<not> isl (fst (ainvoke ex_env ''beta+tools'' msgs w))"
    by (simp add: ex_env_def)
  have two: "replicate (length [[], [] :: base_message list]) x = [x, x]" for x :: string
    by simp
  from bind_tools_serves_plain_calls [of ex_boot ex_env "[''search'']"] n
  have c1: "bind_tools ex_env [''search''] ex_boot = ex_boot"
    by blast
  from bind_tools_serves_plain_calls [of ex_state_beta ex_env "[''search'']"] b
  have c2: "bind_tools ex_env [''search''] ex_state_beta
              = ex_state_beta\<lparr>self_llm := Some (bind_tools_h ex_env ''beta'' [''search''])\<rparr>
            \<and> (LLMS ex_state_beta \<noteq> []
                 \<and> (\<forall>msgs w. \<not> isl (fst (ainvoke ex_env
                                             (bind_tools_h ex_env ''beta'' [''search'']) msgs w)))
               \<longrightarrow> (\<forall>later.
                      self_llm (run_ops ex_env (map (\<lambda>msgs. Call msgs None []) later)
                                  (bind_tools ex_env [''search''] ex_state_beta))
                        = Some (bind_tools_h ex_env ''beta'' [''search''])
                      \<and> invoked (trace (run_ops ex_env (map (\<lambda>msgs. Call msgs None []) later)
                                          (bind_tools ex_env [''search''] ex_state_beta)))
                        = invoked (trace ex_state_beta)
                            @ replicate (length later) (bind_tools_h ex_env ''beta'' [''search''])))"
    by blast
  from c2 [unfolded hb] ne ok
  have c3: "bind_tools ex_env [''search''] ex_state_beta
              = ex_state_beta\<lparr>self_llm := Some ''beta+tools''\<rparr>"
    and c4: "self_llm (run_ops ex_env (map (\<lambda>msgs. Call msgs None []) [[], []])
                         (bind_tools ex_env [''search''] ex_state_beta)) = Some ''beta+tools''"
    and c5: "invoked (trace (run_ops ex_env (map (\<lambda>msgs. Call msgs None []) [[], []])
                         (bind_tools ex_env [''search''] ex_state_beta)))
             = invoked (trace ex_state_beta) @ replicate (length [[], [] :: base_message list]) ''beta+tools''"
    by blast+
  have c6: "invoked (trace (run_ops ex_env (map (\<lambda>msgs. Call msgs None []) [[], []])
                         (bind_tools ex_env [''search''] ex_state_beta)))
             = [''beta+tools'', ''beta+tools'']"
    using c5 by (simp only: tr two invoked.simps append_Nil)
  show ?thesis
    by (intro conjI) (rule n c1 b c3 ne ok c4 c6)+
qed

text \<open>
  C10, as stated, fails: after tools are bound to \<open>beta\<close>, a call that names the model
  \<open>beta\<close> takes the registry's own handle, and that call and the next one are served by
  the handle without tools.
\<close>

theorem bind_tools_lost_after_named_call:
  "self_llm (run_ops ex_env [BindTools [''search'']] ex_state_beta) = Some ''beta+tools''
   \<and> invoked (trace (run_ops ex_env
                        [BindTools [''search''], Call [] (Some ''beta'') [], Call [] None []]
                        ex_state_beta))
       = [''beta'', ''beta'']
   \<and> self_llm (run_ops ex_env
                  [BindTools [''search''], Call [] (Some ''beta'') [], Call [] None []]
                  ex_state_beta)
       = Some ''beta''"
  by (simp add: run_ops_def bind_tools_def call_def select_requested_model_def
        LLMRegistry_get_def get_all_names_def py_index_def call_loop.simps
        call_llm_with_retry_def retrying.simps call_llm_body_def ensure_initialized_def
        ex_env_def ex_state_beta_def ex_state_def)


section \<open>Validation of a message\<close>

text \<open>
  The matcher against the description in words: a literal run matches a prefix of equal
  length letter by letter, the lazy star skips any prefix, and the search skips any
  prefix before the match.
\<close>

lemma re_match_here_literal:
  "re_match_here (map Chr ps @ items) v
     \<longleftrightarrow> (\<exists>s rest. v = s @ rest \<and> list_all2 ignorecase_eq ps s \<and> re_match_here items rest)"
proof (induction ps arbitrary: v)
  case Nil
  then show ?case by simp
next
  case (Cons p ps)
  show ?case
  proof (cases v)
    case Nil
    then show ?thesis by simp
  next
    case (Cons t ts)
    have "re_match_here (map Chr (p # ps) @ items) (t # ts)
            \<longleftrightarrow> ignorecase_eq p t
                \<and> (\<exists>s rest. ts = s @ rest \<and> list_all2 ignorecase_eq ps s \<and> re_match_here items rest)"
      using Cons.IH [of ts] by simp
    also have "\<dots> \<longleftrightarrow> (\<exists>s rest. t # ts = s @ rest \<and> list_all2 ignorecase_eq (p # ps) s
                              \<and> re_match_here items rest)"
      by (auto simp: list_all2_Cons1 Cons_eq_append_conv)
    finally show ?thesis
      using Cons by simp
  qed
qed

lemma re_match_here_dotstar:
  "re_match_here (DotStarLazy # items) v \<longleftrightarrow> (\<exists>skipped rest. v = skipped @ rest \<and> re_match_here items rest)"
proof (induction v)
  case Nil
  then show ?case by simp
next
  case (Cons t ts)
  show ?case
  proof
    assume "re_match_here (DotStarLazy # items) (t # ts)"
    then consider "re_match_here items (t # ts)" | "re_match_here (DotStarLazy # items) ts"
      by auto
    then show "\<exists>skipped rest. t # ts = skipped @ rest \<and> re_match_here items rest"
    proof cases
      case 1
      then show ?thesis by (intro exI [of _ "[]"] exI [of _ "t # ts"]) simp
    next
      case 2
      then obtain skipped rest where "ts = skipped @ rest" "re_match_here items rest"
        using Cons.IH by blast
      then show ?thesis by (intro exI [of _ "t # skipped"] exI [of _ rest]) simp
    qed
  next
    assume "\<exists>skipped rest. t # ts = skipped @ rest \<and> re_match_here items rest"
    then obtain skipped rest where d: "t # ts = skipped @ rest" and r: "re_match_here items rest"
      by blast
    show "re_match_here (DotStarLazy # items) (t # ts)"
    proof (cases skipped)
      case Nil
      then have "rest = t # ts" using d by simp
      then show ?thesis using r by simp
    next
      case (Cons a as)
      then have "ts = as @ rest" using d by simp
      then have "re_match_here (DotStarLazy # items) ts"
        using Cons.IH r by blast
      then show ?thesis by simp
    qed
  qed
qed

lemma re_search_iff:
  "re_search items v \<longleftrightarrow> (\<exists>before rest. v = before @ rest \<and> re_match_here items rest)"
proof (induction v)
  case Nil
  then show ?case by simp
next
  case (Cons t ts)
  show ?case
  proof
    assume "re_search items (t # ts)"
    then consider "re_match_here items (t # ts)" | "re_search items ts"
      by auto
    then show "\<exists>before rest. t # ts = before @ rest \<and> re_match_here items rest"
    proof cases
      case 1
      then show ?thesis by (intro exI [of _ "[]"] exI [of _ "t # ts"]) simp
    next
      case 2
      then obtain before rest where "ts = before @ rest" "re_match_here items rest"
        using Cons.IH by blast
      then show ?thesis by (intro exI [of _ "t # before"] exI [of _ rest]) simp
    qed
  next
    assume "\<exists>before rest. t # ts = before @ rest \<and> re_match_here items rest"
    then obtain before rest where d: "t # ts = before @ rest" and r: "re_match_here items rest"
      by blast
    show "re_search items (t # ts)"
    proof (cases before)
      case Nil
      then have "rest = t # ts" using d by simp
      then show ?thesis using r by simp
    next
      case (Cons a as)
      then have "ts = as @ rest" using d by simp
      then have "re_search items ts"
        using Cons.IH r by blast
      then show ?thesis by simp
    qed
  qed
qed

lemma gt_exact: "list_all2 ignorecase_eq (lit ''>'') s \<longleftrightarrow> s = lit ''>''"
  by (auto simp: lit_def list_all2_Cons1 ignorecase_eq_def)

lemma re_match_here_literal_end:
  "re_match_here (map Chr ps) v \<longleftrightarrow> (\<exists>s rest. v = s @ rest \<and> list_all2 ignorecase_eq ps s)"
  using re_match_here_literal [of ps "[]" v] by simp

lemma re_search_script_pattern:
  "re_search script_pattern v \<longleftrightarrow> contains_script_tag v"
proof
  assume "re_search script_pattern v"
  then obtain before r0 where v: "v = before @ r0" and m0: "re_match_here script_pattern r0"
    unfolding re_search_iff by blast
  from m0 obtain otag r1 where r0: "r0 = otag @ r1"
    and o: "list_all2 ignorecase_eq (lit ''<script'') otag"
    and m1: "re_match_here (DotStarLazy # map Chr (lit ''>'') @ [DotStarLazy]
               @ map Chr (lit ''</script>'')) r1"
    unfolding script_pattern_def re_match_here_literal by auto
  from m1 obtain attrs r2 where r1: "r1 = attrs @ r2"
    and m2: "re_match_here (map Chr (lit ''>'') @ [DotStarLazy] @ map Chr (lit ''</script>'')) r2"
    unfolding re_match_here_dotstar by blast
  from m2 obtain g r3 where r2: "r2 = g @ r3" and g: "list_all2 ignorecase_eq (lit ''>'') g"
    and m3: "re_match_here (DotStarLazy # map Chr (lit ''</script>'')) r3"
    unfolding re_match_here_literal by auto
  from m3 obtain body r4 where r3: "r3 = body @ r4"
    and m4: "re_match_here (map Chr (lit ''</script>'')) r4"
    unfolding re_match_here_dotstar by blast
  from m4 obtain ctag after where r4: "r4 = ctag @ after"
    and c: "list_all2 ignorecase_eq (lit ''</script>'') ctag"
    unfolding re_match_here_literal_end by blast
  have "v = before @ otag @ attrs @ lit ''>'' @ body @ ctag @ after"
    using v r0 r1 r2 r3 r4 g by (simp add: gt_exact)
  then show "contains_script_tag v"
    unfolding contains_script_tag_def same_ignoring_case_def using o c by blast
next
  assume "contains_script_tag v"
  then obtain before otag attrs body ctag after where
    v: "v = before @ otag @ attrs @ lit ''>'' @ body @ ctag @ after"
    and o: "list_all2 ignorecase_eq (lit ''<script'') otag"
    and c: "list_all2 ignorecase_eq (lit ''</script>'') ctag"
    unfolding contains_script_tag_def same_ignoring_case_def by blast
  have m4: "re_match_here (map Chr (lit ''</script>'')) (ctag @ after)"
    unfolding re_match_here_literal_end using c by blast
  have m3: "re_match_here (DotStarLazy # map Chr (lit ''</script>'')) (body @ ctag @ after)"
    unfolding re_match_here_dotstar using m4 by blast
  have g: "list_all2 ignorecase_eq (lit ''>'') (lit ''>'')"
    by (simp add: gt_exact)
  have m2: "re_match_here (map Chr (lit ''>'') @ DotStarLazy # map Chr (lit ''</script>''))
              (lit ''>'' @ body @ ctag @ after)"
    unfolding re_match_here_literal using g m3 by blast
  have m1: "re_match_here (DotStarLazy # map Chr (lit ''>'') @ DotStarLazy # map Chr (lit ''</script>''))
              (attrs @ lit ''>'' @ body @ ctag @ after)"
    unfolding re_match_here_dotstar using m2 by blast
  have m0: "re_match_here (map Chr (lit ''<script'') @ DotStarLazy # map Chr (lit ''>'')
                             @ DotStarLazy # map Chr (lit ''</script>''))
              (otag @ attrs @ lit ''>'' @ body @ ctag @ after)"
    unfolding re_match_here_literal using o m1 by blast
  have "re_match_here script_pattern (otag @ attrs @ lit ''>'' @ body @ ctag @ after)"
    using m0 by (simp add: script_pattern_def)
  then show "re_search script_pattern v"
    unfolding re_search_iff v by blast
qed

lemma validate_content_field_iff:
  "isl (validate_content_field c)
     \<longleftrightarrow> \<not> valid_unicode c \<or> c = [] \<or> 3000 < length c \<or> contains_script_tag c \<or> 0 \<in> set c"
  by (auto simp: validate_content_field_def validate_content_def re_search_script_pattern
      split: sum.splits if_splits)

lemma validate_content_field_unchanged:
  "validate_content_field c = Inr v \<Longrightarrow> v = c"
  by (auto simp: validate_content_field_def validate_content_def split: sum.splits if_splits)

text \<open>
  C9, as the code has it. Constructing a \<open>Message\<close> raises if and only if the role is not
  one of the three literals, or the content is not valid Unicode text (it holds a
  surrogate), is empty, is longer than 3000 characters, contains a script tag
  (\<^verbatim>\<open><script\<close>, later \<^verbatim>\<open>>\<close>, later \<^verbatim>\<open></script>\<close>, letters in either case, any characters
  between them) or contains a null character; what it raises is a validation error; and
  a content that is accepted is stored unchanged.
\<close>

theorem Message_new_rejects_iff:
  "(isl (Message_new r c)
      \<longleftrightarrow> role_of_str r = None \<or> \<not> valid_unicode c
          \<or> c = [] \<or> 3000 < length c \<or> contains_script_tag c \<or> 0 \<in> set c)
   \<and> (\<not> isl (Message_new r c) \<longrightarrow>
        (\<exists>x. role_of_str r = Some x \<and> Message_new r c = Inr \<lparr>role = x, content = c\<rparr>))
   \<and> (\<forall>e. Message_new r c = Inl e \<longrightarrow> exc_class e = ValidationError)"
proof -
  have role: "isl (validate_role_field r) \<longleftrightarrow> role_of_str r = None"
    by (simp add: validate_role_field_def split: option.splits)
  have both: "isl (Message_new r c)
                \<longleftrightarrow> isl (validate_role_field r) \<or> isl (validate_content_field c)"
    by (simp add: Message_new_def split: sum.splits)
  have a: "isl (Message_new r c)
      \<longleftrightarrow> role_of_str r = None \<or> \<not> valid_unicode c
          \<or> c = [] \<or> 3000 < length c \<or> contains_script_tag c \<or> 0 \<in> set c"
    unfolding both role validate_content_field_iff by blast
  have b: "\<not> isl (Message_new r c) \<longrightarrow>
        (\<exists>x. role_of_str r = Some x \<and> Message_new r c = Inr \<lparr>role = x, content = c\<rparr>)"
    by (auto simp: Message_new_def validate_role_field_def
        dest: validate_content_field_unchanged split: sum.splits option.splits)
  have c: "\<forall>e. Message_new r c = Inl e \<longrightarrow> exc_class e = ValidationError"
    by (auto simp: Message_new_def split: sum.splits)
  show ?thesis
    using a b c by blast
qed

lemma ex_script_rejected:
  "isl (Message_new (lit ''user'') (lit ''<ScRiPt src=x>'' @ [10] @ lit ''alert(1)</SCRIPT>''))"
  by (simp add: Message_new_def validate_role_field_def role_of_str_def
        validate_content_field_def valid_unicode_def is_surrogate_def validate_content_def
        script_pattern_def lit_def ignorecase_eq_def)

lemma ex_hello_accepted:
  "Message_new (lit ''assistant'') (lit ''hello'')
     = Inr \<lparr>role = Assistant, content = lit ''hello''\<rparr>"
  by (simp add: Message_new_def validate_role_field_def role_of_str_def
        validate_content_field_def valid_unicode_def is_surrogate_def validate_content_def
        script_pattern_def lit_def ignorecase_eq_def)

lemma ex_hello_no_script: "\<not> contains_script_tag (lit ''hello'')"
  unfolding re_search_script_pattern [symmetric]
  by (simp add: script_pattern_def lit_def ignorecase_eq_def)

lemma ex_surrogate_no_script: "\<not> contains_script_tag [97, 55296, 98]"
  unfolding re_search_script_pattern [symmetric]
  by (simp add: script_pattern_def lit_def ignorecase_eq_def)

theorem Message_new_rejects_iff_witness:
  "isl (Message_new (lit ''user'') (lit ''<ScRiPt src=x>'' @ [10] @ lit ''alert(1)</SCRIPT>''))
   \<and> contains_script_tag (lit ''<ScRiPt src=x>'' @ [10] @ lit ''alert(1)</SCRIPT>'')
   \<and> Message_new (lit ''assistant'') (lit ''hello'')
       = Inr \<lparr>role = Assistant, content = lit ''hello''\<rparr>
   \<and> role_of_str (lit ''assistant'') = Some Assistant
   \<and> valid_unicode (lit ''hello'')
   \<and> \<not> contains_script_tag (lit ''hello'')
   \<and> isl (Message_new (lit ''user'') [])
   \<and> isl (Message_new (lit ''user'') (lit ''a'' @ [0]))"
proof -
  let ?bad = "lit ''<ScRiPt src=x>'' @ [10] @ lit ''alert(1)</SCRIPT>''"
  have basic: "?bad \<noteq> []" "\<not> 3000 < length ?bad" "0 \<notin> set ?bad" "valid_unicode ?bad"
    "role_of_str (lit ''user'') \<noteq> None"
    by (simp_all add: lit_def valid_unicode_def is_surrogate_def role_of_str_def)
  have c1: "contains_script_tag ?bad"
    using Message_new_rejects_iff [of "lit ''user''" ?bad] ex_script_rejected basic by blast
  have ok: "\<not> isl (Message_new (lit ''assistant'') (lit ''hello''))"
    by (simp add: ex_hello_accepted)
  have c2: "\<not> contains_script_tag (lit ''hello'')"
    and c2v: "valid_unicode (lit ''hello'')"
    using Message_new_rejects_iff [of "lit ''assistant''" "lit ''hello''"] ok by blast+
  have c2r: "role_of_str (lit ''assistant'') = Some Assistant"
    by (simp add: role_of_str_def lit_def)
  have c3: "isl (Message_new (lit ''user'') [])"
    using Message_new_rejects_iff [of "lit ''user''" "[]"] by blast
  have "0 \<in> set (lit ''a'' @ [0])"
    by simp
  then have c4: "isl (Message_new (lit ''user'') (lit ''a'' @ [0]))"
    using Message_new_rejects_iff [of "lit ''user''" "lit ''a'' @ [0]"] by blast
  show ?thesis
    by (intro conjI) (rule ex_script_rejected c1 ex_hello_accepted c2r c2v c2 c3 c4)+
qed

text \<open>
  C9, as stated, fails in the only-if direction: a content that holds a lone surrogate,
  and a role that is none of the three literals, are refused, although the content is
  neither empty nor too long and contains neither a script tag nor a null character.
\<close>

theorem Message_new_rejects_outside_the_four_cases:
  "isl (Message_new (lit ''user'') [97, 55296, 98])
   \<and> [97, 55296, 98 :: nat] \<noteq> []
   \<and> \<not> 3000 < length [97, 55296, 98 :: nat]
   \<and> \<not> contains_script_tag [97, 55296, 98]
   \<and> 0 \<notin> set [97, 55296, 98 :: nat]
   \<and> isl (Message_new (lit ''admin'') (lit ''hello''))
   \<and> lit ''hello'' \<noteq> []
   \<and> \<not> 3000 < length (lit ''hello'')
   \<and> \<not> contains_script_tag (lit ''hello'')
   \<and> 0 \<notin> set (lit ''hello'')"
proof -
  have a: "isl (Message_new (lit ''user'') [97, 55296, 98])"
    by (simp add: Message_new_def validate_role_field_def role_of_str_def
          validate_content_field_def valid_unicode_def is_surrogate_def lit_def)
  have b: "isl (Message_new (lit ''admin'') (lit ''hello''))"
    by (simp add: Message_new_def validate_role_field_def role_of_str_def lit_def
          split: sum.splits)
  have c: "[97, 55296, 98 :: nat] \<noteq> []" "\<not> 3000 < length [97, 55296, 98 :: nat]"
    "0 \<notin> set [97, 55296, 98 :: nat]" "lit ''hello'' \<noteq> []" "\<not> 3000 < length (lit ''hello'')"
    "0 \<notin> set (lit ''hello'')"
    by (simp_all add: lit_def)
  show ?thesis
    by (intro conjI) (rule a b c ex_surrogate_no_script ex_hello_no_script)+
qed

section \<open>What the generators emit\<close>







end
